theory Spec2Isabelle
  imports Complex_Main
begin

section \<open>Data model of the game server (src/wsserver/index.ts)\<close>

text \<open>
  The server is a single-threaded event loop over module-level state: the session map
  \<open>players\<close>, the record \<open>gameState\<close>, the announcement buffer and the pending
  \<open>setTimeout\<close> callbacks. Every handler runs to completion, so a handler is a function
  from state to state. JavaScript numbers are idealised: coordinates are \<open>real\<close>,
  counters and timestamps are \<open>int\<close>. A WebSocket handle is an opaque identity.
  \<open>Math.random()\<close> reads the next value of a stream carried by the state,
  \<open>Date.now()\<close> is an argument of each event (one reading per handler run), and
  \<open>crypto.randomUUID()\<close> is an argument of the connect event.
\<close>

type_synonym ws = nat

record Position =
  px :: real
  py :: real

text \<open>A \<open>SnakeSegment\<close> is an object with the single field \<open>position\<close>.\<close>

type_synonym SnakeSegment = Position

record PlayerState =
  pid :: string
  segments :: "SnakeSegment list"
  rotation :: real
  alive :: bool
  lastUpdate :: int
  kills :: int
  score :: int
  growth :: int

record GameState =
  roundNumber :: int
  food :: "Position list"
  winner :: "string option"
  serverTime :: int
  roundEndTime :: "int option"
  isActive :: bool
  waitingForPlayers :: bool
  gameOver :: bool
  lastAnnouncementTime :: int

datatype MsgType = Movement | ForceStart | OtherType

record MovementMessage =
  mtype :: MsgType
  position :: "Position option"
  mrotation :: "real option"

text \<open>
  What \<open>JSON.parse\<close> makes of an inbound frame: it throws (\<open>Malformed\<close>), it yields
  \<open>null\<close>, whose property reads throw, or it yields a value whose fields can be read.
\<close>

datatype Inbound = Malformed | JsonNull | Parsed MovementMessage

datatype AnnType = Info | Warning | Success | Error

record Announcement =
  message :: string
  atype :: AnnType
  duration :: int

datatype LeaderboardEntry = LeaderboardEntry string int int

datatype PlayerView = PlayerView string "SnakeSegment list" real bool int int

datatype RoundInfo = RoundInfo int "string option" int "int option" bool bool int

text \<open>
  Outbound messages, one constructor per \<open>type\<close> discriminator, the arguments in the
  order of the object literal. The \<open>kill\<close> message is \<open>Kill kills score growth victim\<close>;
  a field that the object literal does not have is \<open>None\<close>.
\<close>

datatype Msg =
    Connected string int int bool int
  | WaitingForPlayersMsg int int
  | AnnouncementMsg Announcement
  | NewRound int int bool "Announcement list"
  | PlayerStates "PlayerView list" "Position list" RoundInfo "Announcement list"
  | Died string "string option"
  | Kill int int "int option" string
  | LastAlive string int
  | AllDead string int "int option"
  | GameOverMsg string int "LeaderboardEntry list" int "int option"
  | FoodEaten int int string
  | ErrorMsg string

text \<open>The three callbacks the server hands to \<open>setTimeout\<close>.\<close>

datatype Timer = TCheckGameStatus | TStartNewRound | TGameOverReset

record State =
  players :: "(ws \<times> PlayerState) list"
  gameState :: GameState
  recentAnnouncements :: "Announcement list"
  timers :: "(int \<times> Timer) list"
  outbox :: "(ws \<times> Msg) list"
  rng :: "nat \<Rightarrow> real"
  rngIdx :: nat

subsection \<open>Constants\<close>

abbreviation SEGMENT_RADIUS :: real where "SEGMENT_RADIUS \<equiv> 10"
abbreviation COLLISION_DISTANCE :: real where "COLLISION_DISTANCE \<equiv> SEGMENT_RADIUS * 2"
abbreviation SEGMENT_DISTANCE :: real where "SEGMENT_DISTANCE \<equiv> SEGMENT_RADIUS * 2"
abbreviation FOOD_COUNT :: nat where "FOOD_COUNT \<equiv> 100"
abbreviation FOOD_RADIUS :: real where "FOOD_RADIUS \<equiv> 5"
abbreviation FOOD_SCORE_VALUE :: int where "FOOD_SCORE_VALUE \<equiv> 1"
abbreviation FOOD_SEGMENTS_GROWTH :: int where "FOOD_SEGMENTS_GROWTH \<equiv> 2"
abbreviation KILL_SEGMENTS_GROWTH :: int where "KILL_SEGMENTS_GROWTH \<equiv> 5"
abbreviation WINNING_KILLS :: int where "WINNING_KILLS \<equiv> 10"
abbreviation MIN_PLAYERS_TO_START :: nat where "MIN_PLAYERS_TO_START \<equiv> 2"
abbreviation MAP_WIDTH :: real where "MAP_WIDTH \<equiv> 2400"
abbreviation MAP_HEIGHT :: real where "MAP_HEIGHT \<equiv> 1800"
abbreviation INITIAL_SPAWN_AREA_WIDTH :: real where "INITIAL_SPAWN_AREA_WIDTH \<equiv> 800"
abbreviation INITIAL_SPAWN_AREA_HEIGHT :: real where "INITIAL_SPAWN_AREA_HEIGHT \<equiv> 600"
abbreviation INACTIVE_TIMEOUT_MS :: int where "INACTIVE_TIMEOUT_MS \<equiv> 30000"

subsection \<open>Primitive effects\<close>

definition upd_gs :: "(GameState \<Rightarrow> GameState) \<Rightarrow> State \<Rightarrow> State" where
  "upd_gs f s = s\<lparr>gameState := f (gameState s)\<rparr>"

text \<open>\<open>players.get(ws)\<close>, and a mutation of the session object stored under a handle.\<close>

definition getPlayer :: "State \<Rightarrow> ws \<Rightarrow> PlayerState option" where
  "getPlayer s w = map_of (players s) w"

definition upd_player :: "ws \<Rightarrow> (PlayerState \<Rightarrow> PlayerState) \<Rightarrow> State \<Rightarrow> State" where
  "upd_player w f s =
     s\<lparr>players := map (\<lambda>(w', p). if w' = w then (w', f p) else (w', p)) (players s)\<rparr>"

text \<open>\<open>players.set(ws, p)\<close>: a present key keeps its place, a new key goes last.\<close>

fun mapSet :: "ws \<Rightarrow> PlayerState \<Rightarrow> (ws \<times> PlayerState) list \<Rightarrow> (ws \<times> PlayerState) list" where
  "mapSet w p [] = [(w, p)]"
| "mapSet w p ((w', q) # rest) = (if w' = w then (w, p) # rest else (w', q) # mapSet w p rest)"

text \<open>\<open>players.delete(ws)\<close>.\<close>

definition mapDelete :: "ws \<Rightarrow> (ws \<times> PlayerState) list \<Rightarrow> (ws \<times> PlayerState) list" where
  "mapDelete w ps = filter (\<lambda>(w', p). w' \<noteq> w) ps"

definition send :: "ws \<Rightarrow> Msg \<Rightarrow> State \<Rightarrow> State" where
  "send w m s = s\<lparr>outbox := outbox s @ [(w, m)]\<rparr>"

text \<open>\<open>players.forEach((_, ws) => ws.send(m))\<close>.\<close>

definition broadcast :: "Msg \<Rightarrow> State \<Rightarrow> State" where
  "broadcast m s = s\<lparr>outbox := outbox s @ map (\<lambda>(w, p). (w, m)) (players s)\<rparr>"

definition addTimer :: "int \<Rightarrow> Timer \<Rightarrow> State \<Rightarrow> State" where
  "addTimer due t s = s\<lparr>timers := timers s @ [(due, t)]\<rparr>"

definition mathRandom :: "State \<Rightarrow> real \<times> State" where
  "mathRandom s = (rng s (rngIdx s), s\<lparr>rngIdx := rngIdx s + 1\<rparr>)"

text \<open>Decimal rendering of a number inside a template string.\<close>

function string_of_nat :: "nat \<Rightarrow> string" where
  "string_of_nat n =
     (if n < 10 then [char_of (48 + n)]
      else string_of_nat (n div 10) @ [char_of (48 + n mod 10)])"
  by pat_completeness auto
termination
  by (relation "measure id") auto

declare string_of_nat.simps [simp del]

definition string_of_int :: "int \<Rightarrow> string" where
  "string_of_int i = (if i < 0 then CHR ''-'' # string_of_nat (nat (- i)) else string_of_nat (nat i))"

definition distance :: "Position \<Rightarrow> Position \<Rightarrow> real" where
  "distance a b = sqrt ((px a - px b)\<^sup>2 + (py a - py b)\<^sup>2)"

subsection \<open>Announcements (lines 93-121)\<close>

definition broadcastAnnouncement :: "int \<Rightarrow> string \<Rightarrow> AnnType \<Rightarrow> int \<Rightarrow> State \<Rightarrow> State" where
  "broadcastAnnouncement now msg ty dur s =
     (let announcement = \<lparr>message = msg, atype = ty, duration = dur\<rparr>;
          pushed = recentAnnouncements s @ [announcement];
          kept = (if length pushed > 1 then tl pushed else pushed);
          s1 = s\<lparr>recentAnnouncements := kept\<rparr>;
          s2 = upd_gs (\<lambda>g. g\<lparr>lastAnnouncementTime := now\<rparr>) s1
      in broadcast (AnnouncementMsg announcement) s2)"

subsection \<open>Food generation and spawn positions (lines 156-166, 213-216)\<close>

fun generateFood :: "nat \<Rightarrow> State \<Rightarrow> Position list \<times> State" where
  "generateFood 0 s = ([], s)"
| "generateFood (Suc n) s =
     (let (rx, s1) = mathRandom s;
          (ry, s2) = mathRandom s1;
          (rest, s3) = generateFood n s2
      in (\<lparr>px = rx * MAP_WIDTH, py = ry * MAP_HEIGHT\<rparr> # rest, s3))"

definition spawnPosition :: "State \<Rightarrow> Position \<times> State" where
  "spawnPosition s =
     (let (rx, s1) = mathRandom s;
          (ry, s2) = mathRandom s1
      in (\<lparr>px = (MAP_WIDTH - INITIAL_SPAWN_AREA_WIDTH) / 2 + rx * INITIAL_SPAWN_AREA_WIDTH,
           py = (MAP_HEIGHT - INITIAL_SPAWN_AREA_HEIGHT) / 2 + ry * INITIAL_SPAWN_AREA_HEIGHT\<rparr>, s2))"

subsection \<open>Broadcasting the snapshot (lines 785-837)\<close>

definition playerView :: "PlayerState \<Rightarrow> PlayerView" where
  "playerView p = PlayerView (pid p) (segments p) (rotation p) (alive p) (kills p) (score p)"

definition playersNeeded :: "State \<Rightarrow> int" where
  "playersNeeded s = max 0 (int MIN_PLAYERS_TO_START - int (length (players s)))"

definition broadcastPlayerStates :: "int \<Rightarrow> State \<Rightarrow> State" where
  "broadcastPlayerStates now s =
     (if length (players s) = 0 then s
      else
        (let s1 = upd_gs (\<lambda>g. g\<lparr>serverTime := now\<rparr>) s;
             s2 = (if lastAnnouncementTime (gameState s1) \<noteq> 0
                      \<and> now - lastAnnouncementTime (gameState s1) > 3000
                   then s1\<lparr>recentAnnouncements := []\<rparr> else s1);
             playerStates = map (\<lambda>(w, p). playerView p) (players s2);
             aliveCount = length (filter (\<lambda>(w, p). alive p) (players s2));
             s3 = (if aliveCount = 0 \<and> isActive (gameState s2) \<and> length playerStates > 0
                   then addTimer (now + 100) TCheckGameStatus s2 else s2);
             g = gameState s3
         in broadcast
              (PlayerStates playerStates (food g)
                 (RoundInfo (roundNumber g) (winner g) (serverTime g) (roundEndTime g)
                    (isActive g) (waitingForPlayers g)
                    (if waitingForPlayers g then playersNeeded s3 else 0))
                 (recentAnnouncements s3))
              s3))"

subsection \<open>Starting a round (lines 172-265)\<close>

text \<open>The two \<open>players.forEach\<close> loops that give sessions a fresh spawn position.\<close>

fun resetAllPlayers ::
  "int \<Rightarrow> (ws \<times> PlayerState) list \<Rightarrow> State \<Rightarrow> (ws \<times> PlayerState) list \<times> State" where
  "resetAllPlayers now [] s = ([], s)"
| "resetAllPlayers now ((w, p) # rest) s =
     (let (initialPosition, s1) = spawnPosition s;
          p' = p\<lparr>segments := [initialPosition], rotation := 0, alive := True,
                 lastUpdate := now, growth := 0\<rparr>;
          (rest', s2) = resetAllPlayers now rest s1
      in ((w, p') # rest', s2))"

fun respawnDeadPlayers ::
  "int \<Rightarrow> (ws \<times> PlayerState) list \<Rightarrow> State \<Rightarrow> (ws \<times> PlayerState) list \<times> State" where
  "respawnDeadPlayers now [] s = ([], s)"
| "respawnDeadPlayers now ((w, p) # rest) s =
     (if \<not> alive p then
        (let (initialPosition, s1) = spawnPosition s;
             p' = p\<lparr>segments := [initialPosition], rotation := 0, alive := True,
                    lastUpdate := now\<rparr>;
             (rest', s2) = respawnDeadPlayers now rest s1
         in ((w, p') # rest', s2))
      else
        (let (rest', s2) = respawnDeadPlayers now rest s
         in ((w, p) # rest', s2)))"

definition startNewRound :: "int \<Rightarrow> State \<Rightarrow> State" where
  "startNewRound now s =
     (if length (players s) < MIN_PLAYERS_TO_START then
        (let s1 = upd_gs (\<lambda>g. g\<lparr>waitingForPlayers := True, isActive := False,
                                  roundEndTime := None\<rparr>) s;
             s2 = broadcast (WaitingForPlayersMsg (playersNeeded s1) (serverTime (gameState s1))) s1
         in broadcastAnnouncement now ''Waiting for players...'' Info 2000 s2)
      else
        (let s1 = upd_gs (\<lambda>g. g\<lparr>isActive := True, winner := None, roundEndTime := None\<rparr>) s;
             s2 = (if gameOver (gameState s1) then
                     (let sa = upd_gs (\<lambda>g. g\<lparr>roundNumber := roundNumber g + 1,
                                               gameOver := False\<rparr>) s1;
                          (newFood, sb) = generateFood FOOD_COUNT sa;
                          sc = upd_gs (\<lambda>g. g\<lparr>food := newFood\<rparr>) sb;
                          (ps, sd) = resetAllPlayers now (players sc) sc
                      in sd\<lparr>players := ps\<rparr>)
                   else
                     (let (ps, sd) = respawnDeadPlayers now (players s1) s1
                      in sd\<lparr>players := ps\<rparr>));
             s3 = broadcast (NewRound (roundNumber (gameState s2)) (serverTime (gameState s2)) True
                               (recentAnnouncements s2)) s2;
             s4 = broadcastAnnouncement now
                    (''Round '' @ string_of_int (roundNumber (gameState s3)) @ '' started!'')
                    Success 2000 s3
         in broadcastPlayerStates now s4))"

subsection \<open>Round status (lines 267-411)\<close>

text \<open>The branch of \<open>checkGameStatus\<close> taken when a session has the winning kill count.\<close>

definition leaderboardOf :: "(ws \<times> PlayerState) list \<Rightarrow> LeaderboardEntry list" where
  "leaderboardOf ps =
     map (\<lambda>p. LeaderboardEntry (pid p) (kills p) (score p))
       (sort_key (\<lambda>p. - kills p) (map snd ps))"

definition declareGameOver :: "int \<Rightarrow> PlayerState \<Rightarrow> State \<Rightarrow> State" where
  "declareGameOver now winnerPlayer s =
     (let s1 = upd_gs (\<lambda>g. g\<lparr>winner := Some (pid winnerPlayer),
                               roundEndTime := Some (serverTime g + 5000),
                               isActive := False\<rparr>) s;
          g = gameState s1;
          s2 = broadcast (GameOverMsg (pid winnerPlayer) (roundNumber g)
                            (leaderboardOf (players s1)) (serverTime g) (roundEndTime g)) s1;
          winnerName = take 8 (pid winnerPlayer);
          s3 = s2\<lparr>recentAnnouncements := []\<rparr>;
          s4 = broadcastAnnouncement now (winnerName @ '' wins!'') Success 2000 s3
      in addTimer (now + 5000) TGameOverReset s4)"

text \<open>The rest of \<open>checkGameStatus\<close>: the last snake alive, or nobody alive.\<close>

definition checkAlivePlayers :: "int \<Rightarrow> State \<Rightarrow> State" where
  "checkAlivePlayers now s =
     (let alivePlayers = filter (\<lambda>(w, p). alive p) (players s) in
      if length alivePlayers = 1 \<and> length (players s) > 1 then
        (case alivePlayers of
           [] \<Rightarrow> s
         | (winnerWs, winnerPlayer) # others \<Rightarrow>
             (let s1 = send winnerWs
                         (LastAlive ''You are the last snake alive! You win this round!''
                            (serverTime (gameState s))) s;
                  lastSnakeName = take 8 (pid winnerPlayer);
                  s2 = broadcastAnnouncement now (lastSnakeName @ '' is last alive!'') Warning 2000 s1
              in if length (players s2) - length alivePlayers > 0
                 then addTimer (now + 3000) TStartNewRound s2 else s2))
      else if length alivePlayers = 0 \<and> length (players s) > 0 then
        (let s1 = upd_gs (\<lambda>g. g\<lparr>roundEndTime := Some (serverTime g + 3000),
                                  isActive := False\<rparr>) s;
             g = gameState s1;
             s2 = broadcast (AllDead ''All players died! Respawning...'' (serverTime g)
                               (roundEndTime g)) s1;
             s3 = broadcastAnnouncement now ''All snakes died!'' Error 2000 s2
         in addTimer (now + 3000) TStartNewRound s3)
      else s)"

definition checkGameStatus :: "int \<Rightarrow> State \<Rightarrow> State" where
  "checkGameStatus now s =
     (if \<not> (isActive (gameState s) \<and> \<not> waitingForPlayers (gameState s))
         \<and> length (players s) < MIN_PLAYERS_TO_START then
        (let s1 = upd_gs (\<lambda>g. g\<lparr>waitingForPlayers := True, isActive := False\<rparr>) s
         in broadcast (WaitingForPlayersMsg (playersNeeded s1) (serverTime (gameState s1))) s1)
      else if waitingForPlayers (gameState s) \<and> length (players s) \<ge> MIN_PLAYERS_TO_START then
        startNewRound now s
      else if \<not> isActive (gameState s) then s
      else
        (case find (\<lambda>(w, p). kills p \<ge> WINNING_KILLS) (players s) of
           Some (winnerWs, winnerPlayer) \<Rightarrow> declareGameOver now winnerPlayer s
         | None \<Rightarrow> checkAlivePlayers now s))"

text \<open>The callback of the 5 second timer that \<open>declareGameOver\<close> sets (lines 347-355).\<close>

definition gameOverReset :: "int \<Rightarrow> State \<Rightarrow> State" where
  "gameOverReset now s =
     (let s1 = s\<lparr>players := map (\<lambda>(w, p). (w, p\<lparr>kills := 0, score := 0\<rparr>)) (players s)\<rparr>;
          s2 = upd_gs (\<lambda>g. g\<lparr>waitingForPlayers := True\<rparr>) s1;
          s3 = upd_gs (\<lambda>g. g\<lparr>gameOver := True\<rparr>) s2
      in startNewRound now s3)"

subsection \<open>Kinematics (lines 573-604)\<close>

text \<open>The first \<open>if\<close> of \<open>updateSnakeSegments\<close>: one owed segment is appended.\<close>

definition applyGrowth :: "PlayerState \<Rightarrow> PlayerState" where
  "applyGrowth p =
     (if growth p > 0 \<and> length (segments p) > 0 then
        p\<lparr>segments := segments p @ [last (segments p)], growth := growth p - 1\<rparr>
      else p)"

text \<open>The body of the \<open>for\<close> loop: where segment \<open>cur\<close> goes, given its predecessor.\<close>

definition ease :: "Position \<Rightarrow> Position \<Rightarrow> Position" where
  "ease prevSegment currentSegment =
     (let dx = px prevSegment - px currentSegment;
          dy = py prevSegment - py currentSegment;
          dist = sqrt (dx * dx + dy * dy)
      in if dist > SEGMENT_DISTANCE * 1.2 then
           (let targetDistance = SEGMENT_DISTANCE;
                ratio = targetDistance / dist;
                newX = px prevSegment - dx * ratio;
                newY = py prevSegment - dy * ratio
            in \<lparr>px = px currentSegment * 0.5 + newX * 0.5,
                 py = py currentSegment * 0.5 + newY * 0.5\<rparr>)
         else currentSegment)"

text \<open>
  The loop \<open>for (i = 1; i < segments.length; i++)\<close>, which writes segment \<open>i\<close> in place and
  so reads the already written segment \<open>i - 1\<close>.
\<close>

function followLoop :: "nat \<Rightarrow> SnakeSegment list \<Rightarrow> SnakeSegment list" where
  "followLoop i segs =
     (if i < length segs then followLoop (i + 1) (segs[i := ease (segs ! (i - 1)) (segs ! i)])
      else segs)"
  by pat_completeness auto
termination
  by (relation "measure (\<lambda>(i, segs). length segs - i)") auto

declare followLoop.simps [simp del]

definition updateSnakeSegments :: "PlayerState \<Rightarrow> PlayerState" where
  "updateSnakeSegments p =
     (let p1 = applyGrowth p in p1\<lparr>segments := followLoop 1 (segments p1)\<rparr>)"

subsection \<open>Food collisions (lines 727-783)\<close>

text \<open>
  The body of \<open>if (distance < SEGMENT_RADIUS + FOOD_RADIUS)\<close> for the food at index \<open>i\<close>,
  in three parts: the milestone announcements, the loop that finds the eater's connection
  by its id and sends \<open>foodEaten\<close>, and before them the removal, the reward and the
  replacement.
\<close>

definition foodMilestones :: "int \<Rightarrow> PlayerState \<Rightarrow> State \<Rightarrow> State" where
  "foodMilestones now p s =
     (let totalLength = int (length (segments p)) + growth p;
          playerName = take 8 (pid p);
          s6 = (if score p mod 50 = 0 \<and> score p > 0 \<and> score p \<ge> 50 then
                  broadcastAnnouncement now
                    (playerName @ '': '' @ string_of_int (score p) @ '' points!'')
                    Success 2000 s
                else s)
      in if totalLength = 50 then
           broadcastAnnouncement now (playerName @ '': 50 segments!'') Success 2000 s6
         else if totalLength = 100 then
           broadcastAnnouncement now (playerName @ '': 100 segments!'') Success 2000 s6
         else s6)"

definition notifyFoodEaten :: "PlayerState \<Rightarrow> State \<Rightarrow> State" where
  "notifyFoodEaten p s =
     (case find (\<lambda>(w', q). pid q = pid p) (players s) of
        Some (w', q) \<Rightarrow>
          send w' (FoodEaten (score p) (int (length (segments p)) + growth p) ''grow'') s
      | None \<Rightarrow> s)"

definition eatFood :: "int \<Rightarrow> ws \<Rightarrow> nat \<Rightarrow> State \<Rightarrow> State" where
  "eatFood now w i s =
     (let s1 = upd_gs (\<lambda>g. g\<lparr>food := take i (food g) @ drop (Suc i) (food g)\<rparr>) s;
          s2 = upd_player w (\<lambda>p. p\<lparr>score := score p + FOOD_SCORE_VALUE,
                                     growth := growth p + FOOD_SEGMENTS_GROWTH\<rparr>) s1;
          (rx, s3) = mathRandom s2;
          (ry, s4) = mathRandom s3;
          s5 = upd_gs (\<lambda>g. g\<lparr>food := food g @ [\<lparr>px = rx * MAP_WIDTH, py = ry * MAP_HEIGHT\<rparr>]\<rparr>) s4
      in case getPlayer s5 w of
           None \<Rightarrow> s5
         | Some p \<Rightarrow> notifyFoodEaten p (foodMilestones now p s5))"

text \<open>One iteration of the loop over the food, at index \<open>i\<close>, for the head position \<open>head\<close>.\<close>

definition foodStep :: "int \<Rightarrow> ws \<Rightarrow> Position \<Rightarrow> nat \<Rightarrow> State \<Rightarrow> State" where
  "foodStep now w head i s =
     (if distance head (food (gameState s) ! i) < SEGMENT_RADIUS + FOOD_RADIUS
      then eatFood now w i s else s)"

text \<open>\<open>for (i = food.length - 1; i >= 0; i--)\<close>: \<open>foodLoop n\<close> runs the indices below \<open>n\<close>.\<close>

fun foodLoop :: "int \<Rightarrow> ws \<Rightarrow> Position \<Rightarrow> nat \<Rightarrow> State \<Rightarrow> State" where
  "foodLoop now w head 0 s = s"
| "foodLoop now w head (Suc i) s = foodLoop now w head i (foodStep now w head i s)"

definition checkFoodCollisions :: "int \<Rightarrow> ws \<Rightarrow> State \<Rightarrow> State" where
  "checkFoodCollisions now w s =
     (case getPlayer s w of
        None \<Rightarrow> s
      | Some player \<Rightarrow>
          (case segments player of
             [] \<Rightarrow> s
           | headSeg # tailSegs \<Rightarrow>
               if \<not> alive player then s
               else foodLoop now w headSeg (length (food (gameState s))) s))"

subsection \<open>Snake collisions (lines 606-725)\<close>

definition headCollision :: "int \<Rightarrow> ws \<Rightarrow> ws \<Rightarrow> State \<Rightarrow> State" where
  "headCollision now currentWs wsA s =
     (let s1 = upd_player currentWs (\<lambda>p. p\<lparr>alive := False\<rparr>) s;
          s2 = upd_player wsA (\<lambda>p. p\<lparr>alive := False\<rparr>) s1;
          s3 = send currentWs (Died ''Head collision'' None) s2;
          s4 = send wsA (Died ''Head collision'' None) s3
      in case (getPlayer s4 wsA, getPlayer s4 currentWs) of
           (Some playerA, Some currentPlayer) \<Rightarrow>
             broadcastAnnouncement now
               (take 8 (pid playerA) @ '' & '' @ take 8 (pid currentPlayer) @ '' collided!'')
               Error 2000 s4
         | _ \<Rightarrow> s4)"

text \<open>The body of the first tail loop: the mover's head is on a tail segment of \<open>wsA\<close>.\<close>

definition tailReason :: string where
  "tailReason = ''Collided with another snake'' @ [CHR 0x27] @ ''s tail''"

definition killByTail :: "int \<Rightarrow> ws \<Rightarrow> ws \<Rightarrow> State \<Rightarrow> State" where
  "killByTail now currentWs wsA s =
     (let s1 = upd_player currentWs (\<lambda>p. p\<lparr>alive := False\<rparr>) s;
          s2 = upd_player wsA (\<lambda>p. p\<lparr>kills := kills p + 1, score := score p + 5,
                                      growth := growth p + KILL_SEGMENTS_GROWTH\<rparr>) s1
      in case (getPlayer s2 wsA, getPlayer s2 currentWs) of
           (Some playerA, Some currentPlayer) \<Rightarrow>
             (let killerName = take 8 (pid playerA);
                  killedName = take 8 (pid currentPlayer);
                  s3 = broadcastAnnouncement now (killerName @ '' killed '' @ killedName @ ''!'')
                         Warning 2000 s2;
                  s4 = (if kills playerA = 5 then
                          broadcastAnnouncement now (killerName @ '': 5 kills!'') Warning 2000 s3
                        else if kills playerA = WINNING_KILLS - 1 then
                          broadcastAnnouncement now (killerName @ '' needs 1 more kill!'') Error 2000 s3
                        else s3);
                  s5 = send currentWs (Died tailReason (Some (pid playerA))) s4
              in send wsA (Kill (kills playerA) (score playerA) (Some KILL_SEGMENTS_GROWTH)
                             (pid currentPlayer)) s5)
         | _ \<Rightarrow> s2)"

text \<open>The body of the second tail loop: the head of \<open>wsA\<close> is on a tail segment of the mover.\<close>

definition killedByMover :: "ws \<Rightarrow> ws \<Rightarrow> State \<Rightarrow> State" where
  "killedByMover currentWs wsA s =
     (let s1 = upd_player wsA (\<lambda>p. p\<lparr>alive := False\<rparr>) s;
          s2 = upd_player currentWs (\<lambda>p. p\<lparr>kills := kills p + 1, score := score p + 1,
                                            growth := growth p + KILL_SEGMENTS_GROWTH\<rparr>) s1
      in case (getPlayer s2 wsA, getPlayer s2 currentWs) of
           (Some playerA, Some currentPlayer) \<Rightarrow>
             (let s3 = send wsA (Died tailReason (Some (pid currentPlayer))) s2
              in send currentWs (Kill (kills currentPlayer) (score currentPlayer) None
                                   (pid playerA)) s3)
         | _ \<Rightarrow> s2)"

text \<open>
  The two loops \<open>for (k = 1; k < segments.length; k++)\<close> with their \<open>break\<close>: the argument is
  the list of the segments from index 1 on, and the first one within the collision
  distance ends the loop.
\<close>

fun moverHitsTail :: "int \<Rightarrow> ws \<Rightarrow> ws \<Rightarrow> Position \<Rightarrow> SnakeSegment list \<Rightarrow> State \<Rightarrow> State" where
  "moverHitsTail now currentWs wsA headCurrent [] s = s"
| "moverHitsTail now currentWs wsA headCurrent (segmentA # rest) s =
     (if distance headCurrent segmentA < COLLISION_DISTANCE then killByTail now currentWs wsA s
      else moverHitsTail now currentWs wsA headCurrent rest s)"

fun otherHitsTail :: "ws \<Rightarrow> ws \<Rightarrow> Position \<Rightarrow> SnakeSegment list \<Rightarrow> State \<Rightarrow> State" where
  "otherHitsTail currentWs wsA headA [] s = s"
| "otherHitsTail currentWs wsA headA (segmentCurrent # rest) s =
     (if distance headA segmentCurrent < COLLISION_DISTANCE then killedByMover currentWs wsA s
      else otherHitsTail currentWs wsA headA rest s)"

text \<open>One iteration of the loop over \<open>playerEntries\<close>, for the entry of \<open>wsA\<close>.\<close>

definition collidePair :: "int \<Rightarrow> ws \<Rightarrow> ws \<Rightarrow> State \<Rightarrow> State" where
  "collidePair now currentWs wsA s =
     (case (getPlayer s wsA, getPlayer s currentWs) of
        (Some playerA, Some currentPlayer) \<Rightarrow>
          if wsA \<noteq> currentWs \<and> alive playerA \<and> length (segments playerA) > 0 then
            (case (segments playerA, segments currentPlayer) of
               (headA # tailA, headCurrent # tailCurrent) \<Rightarrow>
                 if distance headCurrent headA < COLLISION_DISTANCE then
                   headCollision now currentWs wsA s
                 else
                   otherHitsTail currentWs wsA headA tailCurrent
                     (moverHitsTail now currentWs wsA headCurrent tailA s)
             | _ \<Rightarrow> s)
          else s
      | _ \<Rightarrow> s)"

fun collisionLoop :: "int \<Rightarrow> ws \<Rightarrow> ws list \<Rightarrow> State \<Rightarrow> State" where
  "collisionLoop now currentWs [] s = s"
| "collisionLoop now currentWs (wsA # rest) s =
     collisionLoop now currentWs rest (collidePair now currentWs wsA s)"

definition checkCollisions :: "int \<Rightarrow> ws \<Rightarrow> State \<Rightarrow> State" where
  "checkCollisions now currentWs s = collisionLoop now currentWs (map fst (players s)) s"

subsection \<open>The WebSocket handlers and the interval (lines 124-154, 438-570)\<close>

definition newPlayer :: "string \<Rightarrow> Position \<Rightarrow> int \<Rightarrow> PlayerState" where
  "newPlayer playerId initialPosition now =
     \<lparr>pid = playerId, segments = [initialPosition], rotation = 0, alive = True,
      lastUpdate = now, kills = 0, score = 0, growth = 0\<rparr>"

definition onOpen :: "ws \<Rightarrow> string \<Rightarrow> int \<Rightarrow> State \<Rightarrow> State" where
  "onOpen w playerId now s =
     (let (initialPosition, s1) = spawnPosition s;
          s2 = s1\<lparr>players := filter (\<lambda>(w', p). \<not> (now - lastUpdate p > 30000)) (players s1)\<rparr>;
          s3 = s2\<lparr>players := mapSet w (newPlayer playerId initialPosition now) (players s2)\<rparr>;
          g = gameState s3;
          s4 = send w (Connected playerId (roundNumber g) (serverTime g) (waitingForPlayers g)
                         (if waitingForPlayers g then playersNeeded s3 else 0)) s3;
          s5 = broadcastPlayerStates now s4
      in if waitingForPlayers (gameState s5) \<and> length (players s5) \<ge> MIN_PLAYERS_TO_START then
           startNewRound now (upd_gs (\<lambda>g. g\<lparr>waitingForPlayers := False\<rparr>) s5)
         else s5)"

definition handleMovement :: "ws \<Rightarrow> Position \<Rightarrow> real option \<Rightarrow> int \<Rightarrow> State \<Rightarrow> State" where
  "handleMovement w pos rot now s =
     (let s1 = upd_player w (\<lambda>p. p\<lparr>lastUpdate := now\<rparr>) s;
          s2 = upd_player w (\<lambda>p. if length (segments p) > 0
                                   then p\<lparr>segments := (segments p)[0 := pos]\<rparr> else p) s1;
          s3 = (case rot of
                  Some r \<Rightarrow> upd_player w (\<lambda>p. p\<lparr>rotation := r\<rparr>) s2
                | None \<Rightarrow> s2);
          s4 = upd_player w updateSnakeSegments s3;
          s5 = checkFoodCollisions now w s4;
          s6 = checkCollisions now w s5;
          s7 = checkGameStatus now s6
      in broadcastPlayerStates now s7)"

text \<open>
  The \<open>try\<close> block of the message handler after \<open>JSON.parse\<close> has returned; \<open>data\<close> is
  \<open>None\<close> for the parsed value \<open>null\<close>, whose first property read throws into the
  \<open>catch\<close> block.
\<close>

definition handleParsed :: "ws \<Rightarrow> MovementMessage option \<Rightarrow> int \<Rightarrow> State \<Rightarrow> State" where
  "handleParsed w data now s =
     (let player = getPlayer s w in
      if \<not> isActive (gameState s) \<and> player \<noteq> None
         \<and> length (players s) \<ge> MIN_PLAYERS_TO_START then
        (let s1 = upd_gs (\<lambda>g. g\<lparr>waitingForPlayers := False\<rparr>) s;
             s2 = upd_gs (\<lambda>g. g\<lparr>isActive := True\<rparr>) s1;
             s3 = broadcastAnnouncement now ''Game starting!'' Success 2000 s2
         in startNewRound now s3)
      else
        (case player of
           None \<Rightarrow> s
         | Some p \<Rightarrow>
             if \<not> isActive (gameState s) then
               (if length (players s) \<ge> MIN_PLAYERS_TO_START then
                  startNewRound now (broadcastAnnouncement now ''Starting game!'' Success 2000 s)
                else s)
             else if \<not> alive p then s
             else
               (case data of
                  None \<Rightarrow> send w (ErrorMsg ''Invalid message format'') s
                | Some d \<Rightarrow>
                    if mtype d = ForceStart then
                      (let s1 = upd_gs (\<lambda>g. g\<lparr>waitingForPlayers := False\<rparr>) s;
                           s2 = upd_gs (\<lambda>g. g\<lparr>isActive := True\<rparr>) s1;
                           s3 = broadcastAnnouncement now ''Game force-started!'' Warning 2000 s2
                       in startNewRound now s3)
                    else if mtype d = Movement \<and> position d \<noteq> None then
                      (case position d of
                         Some pos \<Rightarrow> handleMovement w pos (mrotation d) now s
                       | None \<Rightarrow> s)
                    else s)))"

definition onMessage :: "ws \<Rightarrow> Inbound \<Rightarrow> int \<Rightarrow> State \<Rightarrow> State" where
  "onMessage w inbound now s =
     (case inbound of
        Malformed \<Rightarrow> send w (ErrorMsg ''Invalid message format'') s
      | JsonNull \<Rightarrow> handleParsed w None now s
      | Parsed d \<Rightarrow> handleParsed w (Some d) now s)"

definition onClose :: "ws \<Rightarrow> int \<Rightarrow> State \<Rightarrow> State" where
  "onClose w now s =
     (let s1 = s\<lparr>players := mapDelete w (players s)\<rparr>;
          s2 = broadcastPlayerStates now s1
      in addTimer (now + 100) TCheckGameStatus s2)"

definition onTick :: "int \<Rightarrow> State \<Rightarrow> State" where
  "onTick now s =
     (let s1 = upd_gs (\<lambda>g. g\<lparr>serverTime := now\<rparr>) s;
          s2 = (if waitingForPlayers (gameState s1) \<and> \<not> isActive (gameState s1)
                   \<and> length (players s1) \<ge> MIN_PLAYERS_TO_START
                then startNewRound now (upd_gs (\<lambda>g. g\<lparr>waitingForPlayers := False\<rparr>) s1)
                else s1);
          inactivePlayers = length (filter (\<lambda>(w, p). now - lastUpdate p > INACTIVE_TIMEOUT_MS)
                                      (players s2));
          s3 = s2\<lparr>players := filter (\<lambda>(w, p). \<not> (now - lastUpdate p > INACTIVE_TIMEOUT_MS))
                                 (players s2)\<rparr>
      in if inactivePlayers > 0 then checkGameStatus now (broadcastPlayerStates now s3) else s3)"

definition runTimer :: "Timer \<Rightarrow> int \<Rightarrow> State \<Rightarrow> State" where
  "runTimer t now s =
     (case t of
        TCheckGameStatus \<Rightarrow> checkGameStatus now s
      | TStartNewRound \<Rightarrow> startNewRound now s
      | TGameOverReset \<Rightarrow> gameOverReset now s)"

text \<open>
  A pending timer fires once, not before it is due; \<open>k\<close> is its place among the pending
  ones. The order in which due timers fire is left open.
\<close>

definition onTimeout :: "nat \<Rightarrow> int \<Rightarrow> State \<Rightarrow> State" where
  "onTimeout k now s =
     (if k < length (timers s) \<and> fst (timers s ! k) \<le> now then
        runTimer (snd (timers s ! k)) now
          (s\<lparr>timers := take k (timers s) @ drop (Suc k) (timers s)\<rparr>)
      else s)"

subsection \<open>The event loop\<close>

datatype Event =
    Open ws string int
  | Message ws Inbound int
  | Close ws int
  | Tick int
  | Timeout nat int

text \<open>One handler run; the outbox holds what that run sent.\<close>

definition step :: "Event \<Rightarrow> State \<Rightarrow> State" where
  "step e s =
     (let s0 = s\<lparr>outbox := []\<rparr> in
      case e of
        Open w playerId now \<Rightarrow> onOpen w playerId now s0
      | Message w inbound now \<Rightarrow> onMessage w inbound now s0
      | Close w now \<Rightarrow> onClose w now s0
      | Tick now \<Rightarrow> onTick now s0
      | Timeout k now \<Rightarrow> onTimeout k now s0)"

fun run :: "Event list \<Rightarrow> State \<Rightarrow> State" where
  "run [] s = s"
| "run (e # es) s = run es (step e s)"

text \<open>The state after the module has loaded (lines 78-91, 169).\<close>

definition initState :: "(nat \<Rightarrow> real) \<Rightarrow> int \<Rightarrow> State" where
  "initState r now =
     (let s0 = \<lparr>players = [],
                gameState = \<lparr>roundNumber = 1, food = [], winner = None, serverTime = now,
                              roundEndTime = None, isActive = False, waitingForPlayers = True,
                              gameOver = False, lastAnnouncementTime = now\<rparr>,
                recentAnnouncements = [], timers = [], outbox = [], rng = r, rngIdx = 0\<rparr>;
          (newFood, s1) = generateFood FOOD_COUNT s0
      in upd_gs (\<lambda>g. g\<lparr>food := newFood\<rparr>) s1)"

inductive reachable :: "State \<Rightarrow> bool" where
  reachable_init: "reachable (initState r now)"
| reachable_step: "reachable s \<Longrightarrow> reachable (step e s)"

subsection \<open>Vocabulary of the specification\<close>

text \<open>
  Linear interpolation from \<open>a\<close> towards \<open>b\<close> by the factor \<open>t\<close>, and the point on the ray
  from \<open>prev\<close> through \<open>cur\<close> that lies at distance \<open>d\<close> from \<open>prev\<close>.
\<close>

definition lerp :: "Position \<Rightarrow> Position \<Rightarrow> real \<Rightarrow> Position" where
  "lerp a b t = \<lparr>px = px a + t * (px b - px a), py = py a + t * (py b - py a)\<rparr>"

definition pointAtDistance :: "Position \<Rightarrow> Position \<Rightarrow> real \<Rightarrow> Position" where
  "pointAtDistance prev cur d =
     \<lparr>px = px prev + (px cur - px prev) * (d / distance prev cur),
      py = py prev + (py cur - py prev) * (d / distance prev cur)\<rparr>"

text \<open>All sessions of a store have a head.\<close>

definition segs_ok :: "(ws \<times> PlayerState) list \<Rightarrow> bool" where
  "segs_ok ps = list_all (\<lambda>(w, p). length (segments p) \<ge> 1) ps"

subsection \<open>Concrete inputs\<close>

definition snake_two :: PlayerState where
  "snake_two = \<lparr>pid = ''a'', segments = [\<lparr>px = 0, py = 0\<rparr>, \<lparr>px = 0, py = 40\<rparr>], rotation = 0,
                 alive = True, lastUpdate = 0, kills = 0, score = 1, growth = 1\<rparr>"

definition isGameOverMsg :: "Msg \<Rightarrow> bool" where
  "isGameOverMsg m = (case m of GameOverMsg a b c d e \<Rightarrow> True | _ \<Rightarrow> False)"

definition gameOverSent :: "State \<Rightarrow> nat" where
  "gameOverSent s = length (filter (\<lambda>(w, m). isGameOverMsg m) (outbox s))"

text \<open>
  A step that leaves the round as it is: the game state may differ in the announcement
  time and the food only, no timer is set, no \<open>gameOver\<close> message is sent and the same
  connections are in the store.
\<close>

definition quiet :: "State \<Rightarrow> State \<Rightarrow> bool" where
  "quiet s s' =
     ((gameState s')\<lparr>lastAnnouncementTime := 0, food := []\<rparr>
        = (gameState s)\<lparr>lastAnnouncementTime := 0, food := []\<rparr>
      \<and> timers s' = timers s
      \<and> gameOverSent s' = gameOverSent s
      \<and> map fst (players s') = map fst (players s))"

text \<open>What the round counter depends on: round number, the two flags, the store's size.\<close>

definition rc :: "State \<Rightarrow> int \<times> bool \<times> bool \<times> nat" where
  "rc s = (roundNumber (gameState s), gameOver (gameState s), waitingForPlayers (gameState s),
           length (players s))"

text \<open>A pending game-over flag means the round could not start yet.\<close>

definition gameOver_pending_ok :: "State \<Rightarrow> bool" where
  "gameOver_pending_ok s =
     (\<not> gameOver (gameState s)
      \<or> (length (players s) < MIN_PLAYERS_TO_START \<and> waitingForPlayers (gameState s)))"

definition sentTo :: "ws \<Rightarrow> (Msg \<Rightarrow> bool) \<Rightarrow> (ws \<times> Msg) list \<Rightarrow> (ws \<times> Msg) list" where
  "sentTo w P box = filter (\<lambda>(w', m). w' = w \<and> P m) box"

definition skeleton :: "State \<Rightarrow> (ws \<times> string \<times> SnakeSegment list) list" where
  "skeleton s = map (\<lambda>(w, q). (w, pid q, segments q)) (players s)"

definition isKill :: "Msg \<Rightarrow> bool" where
  "isKill m = (case m of Kill a b c d \<Rightarrow> True | _ \<Rightarrow> False)"

definition isDied :: "Msg \<Rightarrow> bool" where
  "isDied m = (case m of Died a b \<Rightarrow> True | _ \<Rightarrow> False)"

definition isAnnouncementMsg :: "Msg \<Rightarrow> bool" where
  "isAnnouncementMsg m = (case m of AnnouncementMsg a \<Rightarrow> True | _ \<Rightarrow> False)"

definition pos :: "real \<Rightarrow> real \<Rightarrow> Position" where
  "pos a b = \<lparr>px = a, py = b\<rparr>"

definition snake :: "string \<Rightarrow> SnakeSegment list \<Rightarrow> PlayerState" where
  "snake name segs = \<lparr>pid = name, segments = segs, rotation = 0, alive = True, lastUpdate = 0,
                       kills = 0, score = 0, growth = 0\<rparr>"

definition calm_game :: GameState where
  "calm_game = \<lparr>roundNumber = 1, food = replicate FOOD_COUNT (pos 0 0), winner = None,
                 serverTime = 0, roundEndTime = None, isActive = True,
                 waitingForPlayers = False, gameOver = False, lastAnnouncementTime = 0\<rparr>"

definition arena :: "(ws \<times> PlayerState) list \<Rightarrow> State" where
  "arena ps = \<lparr>players = ps, gameState = calm_game, recentAnnouncements = [], timers = [],
                outbox = [], rng = (\<lambda>i. 0), rngIdx = 0\<rparr>"

text \<open>A mover with one tail segment, and another snake whose head lies on that segment.\<close>

definition tail_under_head :: State where
  "tail_under_head = arena [(1, snake ''mover'' [pos 0 0, pos 0 30]), (2, snake ''other'' [pos 0 40])]"

text \<open>A mover whose head is within reach of both the head and a tail segment of another snake.\<close>

definition head_and_tail_close :: State where
  "head_and_tail_close = arena [(1, snake ''mover'' [pos 0 0]), (2, snake ''other'' [pos 0 10, pos 0 5])]"

text \<open>
  A mover with a tail that runs head-on into a first snake, while its head is also on the tail
  of a second snake whose head lies on the mover's tail.
\<close>

definition three_snakes :: State where
  "three_snakes = arena [(1, snake ''mover'' [pos 0 0, pos 0 30]), (2, snake ''bravo'' [pos 0 10]),
                         (3, snake ''carol'' [pos 0 40, pos 0 15])]"

text \<open>A mover whose head is on a snake that is already dead.\<close>

definition ghost :: PlayerState where
  "ghost = (snake ''ghost'' [pos 0 5, pos 0 8])\<lparr>alive := False\<rparr>"

definition dead_bystander :: State where
  "dead_bystander = arena [(1, snake ''mover'' [pos 0 0]), (2, ghost)]"

definition isFoodEaten :: "Msg \<Rightarrow> bool" where
  "isFoodEaten m = (case m of FoodEaten a b c \<Rightarrow> True | _ \<Rightarrow> False)"

text \<open>A live single snake whose head is on the second of three food items.\<close>

definition grazing :: State where
  "grazing = (arena [(1, snake ''eater'' [pos 100 100])])
               \<lparr>gameState := calm_game\<lparr>food := [pos 0 0, pos 100 110, pos 500 500]\<rparr>\<rparr>"

text \<open>What a respawn does to one session: nothing if it is alive, else a fresh single segment.\<close>

definition respawned ::
  "int \<Rightarrow> (nat \<Rightarrow> real) \<Rightarrow> ws \<times> PlayerState \<Rightarrow> ws \<times> PlayerState \<Rightarrow> bool" where
  "respawned now r a b =
     (fst b = fst a
      \<and> (if alive (snd a) then snd b = snd a
          else (\<exists>k. snd b = (snd a)\<lparr>segments := [\<lparr>px = 800 + r k * 800,
                                                       py = 600 + r (k + 1) * 600\<rparr>],
                                         rotation := 0, alive := True, lastUpdate := now\<rparr>)))"

definition calm_rng :: "nat \<Rightarrow> real" where
  "calm_rng i = 0"

text \<open>The server after its first connection.\<close>

definition one_connected :: State where
  "one_connected = step (Open 1 ''first'' 10) (initState calm_rng 0)"

definition forceStartMsg :: Inbound where
  "forceStartMsg = Parsed \<lparr>mtype = ForceStart, position = None, mrotation = None\<rparr>"

text \<open>A step that leaves the random source and the food as they are.\<close>

definition still :: "State \<Rightarrow> State \<Rightarrow> bool" where
  "still s s' = (rng s' = rng s \<and> food (gameState s') = food (gameState s))"

text \<open>A movement message without a rotation.\<close>

definition mv :: "real \<Rightarrow> real \<Rightarrow> Inbound" where
  "mv a b = Parsed \<lparr>mtype = Movement, position = Some (pos a b), mrotation = None\<rparr>"

text \<open>
  The state of a game under the constant random source: the store, the two flags, the
  pending timers; no game-over pending, first round, all food at the origin.
\<close>

definition table ::
  "(ws \<times> PlayerState) list \<Rightarrow> bool \<Rightarrow> bool \<Rightarrow> (int \<times> Timer) list \<Rightarrow> State \<Rightarrow> bool" where
  "table ps act wt ts s =
     (players s = ps \<and> isActive (gameState s) = act \<and> waitingForPlayers (gameState s) = wt
      \<and> \<not> gameOver (gameState s) \<and> roundNumber (gameState s) = 1
      \<and> food (gameState s) = replicate FOOD_COUNT (pos 0 0)
      \<and> rng s = calm_rng \<and> timers s = ts)"

text \<open>
  One of the two sessions that run into the tail: no kills, nothing owed, a single segment
  at the spawn point while alive and where it died otherwise.
\<close>

definition rival :: "bool \<Rightarrow> PlayerState \<Rightarrow> bool" where
  "rival b p = (alive p = b \<and> kills p = 0 \<and> growth p = 0
                \<and> segments p = [if b then pos 800 600 else pos 100 110])"

text \<open>
  A table of three: connection 1 alive with the given segments, owed growth and kills, and
  two rivals on connections 2 and 3.
\<close>

definition stage ::
  "SnakeSegment list \<Rightarrow> int \<Rightarrow> int \<Rightarrow> bool \<Rightarrow> bool \<Rightarrow> bool \<Rightarrow> (int \<times> Timer) list \<Rightarrow> State \<Rightarrow> bool" where
  "stage sa ga k b c act ts s =
     (\<exists>pa pb pc. table [(1, pa), (2, pb), (3, pc)] act False ts s
        \<and> alive pa \<and> segments pa = sa \<and> growth pa = ga \<and> kills pa = k
        \<and> rival b pb \<and> rival c pc)"

text \<open>
  A game of three under the constant random source. Connection 1 eats, grows a tail of two
  segments at (100, 120) and stops with its head at (100, 140); connections 2 and 3 then
  run into that tail, are respawned by the 3 second timer, and do so again.
\<close>

definition first_moves :: "Event list" where
  "first_moves = [Open 1 ''alpha'' 10, Open 2 ''bravo'' 20, Open 3 ''carol'' 30,
              Message 1 (mv 0 0) 40, Message 1 (mv 100 120) 50, Message 1 (mv 100 140) 60]"

definition duel_round :: "int \<Rightarrow> Event list" where
  "duel_round t = [Message 2 (mv 100 110) t, Message 3 (mv 100 110) (t + 10),
                   Timeout 0 (t + 3010)]"

definition winning_game :: "Event list" where
  "winning_game = first_moves @ duel_round 100 @ duel_round 3200 @ duel_round 6300 @ duel_round 9400
                  @ [Message 2 (mv 100 110) 12500, Message 3 (mv 100 110) 12510]"

text \<open>The state in which connection 1 has just reached ten kills, at time 12510.\<close>

definition won :: State where
  "won = run winning_game (initState calm_rng 0)"

text \<open>The state after the first two kills, with the respawn timer pending.\<close>

definition respawn_pending :: State where
  "respawn_pending = run (first_moves @ [Message 2 (mv 100 110) 100, Message 3 (mv 100 110) 110])
                       (initState calm_rng 0)"

text \<open>The winner's client sends its position twice during the 5 second delay.\<close>

definition replay :: "Event list" where
  "replay = [Message 1 (mv 100 140) 12600, Message 1 (mv 100 140) 12700]"

text \<open>The two losers disconnect just before the 5 second timer fires.\<close>

definition departure :: "Event list" where
  "departure = [Close 2 17450, Close 3 17460, Timeout 0 17510]"

text \<open>
  A food item within reach of a head, and the \<open>j\<close>-th replacement that a pass over the food
  draws from the random source (two draws each).
\<close>

definition nearFood :: "Position \<Rightarrow> Position \<Rightarrow> bool" where
  "nearFood h f = (distance h f < SEGMENT_RADIUS + FOOD_RADIUS)"

definition freshFood :: "State \<Rightarrow> nat \<Rightarrow> Position" where
  "freshFood s j = \<lparr>px = rng s (rngIdx s + 2 * j) * MAP_WIDTH,
                    py = rng s (rngIdx s + 2 * j + 1) * MAP_HEIGHT\<rparr>"

text \<open>The \<open>foodEaten\<close> message for the \<open>j\<close>-th item eaten in one pass.\<close>

definition eatenMsg :: "ws \<Rightarrow> PlayerState \<Rightarrow> nat \<Rightarrow> ws \<times> Msg" where
  "eatenMsg w p j = (w, FoodEaten (score p + int j + 1)
                          (int (length (segments p)) + growth p + 2 * (int j + 1)) ''grow'')"

section \<open>Kinematics\<close>

lemma followLoop_length: "length (followLoop i segs) = length segs"
proof (induction i segs rule: followLoop.induct)
  case (1 i segs)
  then show ?case by (subst followLoop.simps) simp
qed

lemma followLoop_prefix: "j < i \<Longrightarrow> followLoop i segs ! j = segs ! j"
proof (induction i segs rule: followLoop.induct)
  case (1 i segs)
  show ?case
  proof (cases "i < length segs")
    case True
    with 1 show ?thesis by (subst followLoop.simps) simp
  next
    case False
    then show ?thesis by (subst followLoop.simps) simp
  qed
qed

lemma followLoop_nth:
  "1 \<le> i \<Longrightarrow> i \<le> j \<Longrightarrow> j < length segs \<Longrightarrow>
   followLoop i segs ! j = ease (followLoop i segs ! (j - 1)) (segs ! j)"
proof (induction i segs rule: followLoop.induct)
  case (1 i segs)
  let ?segs' = "segs[i := ease (segs ! (i - 1)) (segs ! i)]"
  from 1 have il: "i < length segs" by simp
  have unf: "followLoop i segs = followLoop (i + 1) ?segs'"
    using il by (subst followLoop.simps) simp
  show ?case
  proof (cases "j = i")
    case True
    have a: "followLoop (i + 1) ?segs' ! i = ?segs' ! i"
      by (rule followLoop_prefix) simp
    have b: "followLoop (i + 1) ?segs' ! (i - 1) = ?segs' ! (i - 1)"
      by (rule followLoop_prefix) simp
    have c: "?segs' ! (i - 1) = segs ! (i - 1)"
      using 1(2) by simp
    have d: "?segs' ! i = ease (segs ! (i - 1)) (segs ! i)"
      using il by simp
    show ?thesis unfolding unf True a b c d ..
  next
    case False
    with 1 have "i + 1 \<le> j" by simp
    with 1 il have "followLoop (i + 1) ?segs' ! j = ease (followLoop (i + 1) ?segs' ! (j - 1)) (?segs' ! j)"
      by simp
    with False show ?thesis by (simp add: unf)
  qed
qed

lemma ease_dist: "sqrt ((px a - px b) * (px a - px b) + (py a - py b) * (py a - py b)) = distance a b"
  by (simp add: distance_def power2_eq_square)

lemma ease_eq:
  "ease prev cur =
     (if distance prev cur > 1.2 * SEGMENT_DISTANCE then lerp cur (pointAtDistance prev cur SEGMENT_DISTANCE) 0.5
      else cur)"
proof -
  have e: "ease prev cur =
     (if distance prev cur > SEGMENT_DISTANCE * 1.2 then
        \<lparr>px = px cur * 0.5 + (px prev - (px prev - px cur) * (SEGMENT_DISTANCE / distance prev cur)) * 0.5,
         py = py cur * 0.5 + (py prev - (py prev - py cur) * (SEGMENT_DISTANCE / distance prev cur)) * 0.5\<rparr>
      else cur)"
    unfolding ease_def Let_def ease_dist ..
  have k: "c * (1 / 2) + (p - (p - c) * r) * (1 / 2) = c + (p + (c - p) * r - c) / 2" for c p r :: real
    by (simp add: field_simps)
  show ?thesis
    unfolding e lerp_def pointAtDistance_def by (simp add: k del: times_divide_eq_right)
qed

lemma pointAtDistance_exact:
  assumes "0 \<le> d" and "distance prev cur > 0"
  shows "distance prev (pointAtDistance prev cur d) = d"
proof -
  let ?D = "distance prev cur"
  let ?T = "pointAtDistance prev cur d"
  have D2: "?D\<^sup>2 = (px prev - px cur)\<^sup>2 + (py prev - py cur)\<^sup>2"
    by (simp add: distance_def)
  have k: "p - (p + (c - p) * r) = (p - c) * r" for c p r :: real
    by (simp add: algebra_simps)
  have x: "px prev - px ?T = (px prev - px cur) * (d / ?D)"
    by (simp add: pointAtDistance_def k del: times_divide_eq_right)
  have y: "py prev - py ?T = (py prev - py cur) * (d / ?D)"
    by (simp add: pointAtDistance_def k del: times_divide_eq_right)
  have "(px prev - px ?T)\<^sup>2 + (py prev - py ?T)\<^sup>2
        = ((px prev - px cur)\<^sup>2 + (py prev - py cur)\<^sup>2) * (d / ?D)\<^sup>2"
    unfolding x y by (simp only: power_mult_distrib distrib_right)
  also have "\<dots> = ?D\<^sup>2 * (d / ?D)\<^sup>2" by (simp only: D2)
  also have "\<dots> = d\<^sup>2" using assms(2) by (simp add: power_divide)
  finally have "(px prev - px ?T)\<^sup>2 + (py prev - py ?T)\<^sup>2 = d\<^sup>2" .
  then have "distance prev ?T = sqrt (d\<^sup>2)" by (simp add: distance_def)
  then show ?thesis using assms(1) by simp
qed


lemma sqrt_less_num: "0 < c \<Longrightarrow> (sqrt x < c) = (x < c\<^sup>2)"
proof -
  assume c: "0 < c"
  then have "sqrt (c\<^sup>2) = c" by simp
  then have "(sqrt x < c) = (sqrt x < sqrt (c\<^sup>2))" by simp
  also have "\<dots> = (x < c\<^sup>2)" by (rule real_sqrt_less_iff)
  finally show ?thesis .
qed

lemma less_sqrt_num: "0 \<le> c \<Longrightarrow> (c < sqrt x) = (c\<^sup>2 < x)"
proof -
  assume c: "0 \<le> c"
  then have "sqrt (c\<^sup>2) = c" by simp
  then have "(c < sqrt x) = (sqrt (c\<^sup>2) < sqrt x)" by simp
  also have "\<dots> = (c\<^sup>2 < x)" by (rule real_sqrt_less_iff)
  finally show ?thesis .
qed

lemma sqrt_1600: "sqrt 1600 = 40"
  by (rule real_sqrt_unique) simp_all

lemma applyGrowth_segments:
  "segments p \<noteq> [] \<Longrightarrow>
   segments (applyGrowth p) = (if growth p > 0 then segments p @ [last (segments p)] else segments p)"
  by (simp add: applyGrowth_def)

lemma applyGrowth_growth:
  "segments p \<noteq> [] \<Longrightarrow> growth (applyGrowth p) = (if growth p > 0 then growth p - 1 else growth p)"
  by (simp add: applyGrowth_def)

lemma updateSnakeSegments_segments:
  "segments (updateSnakeSegments p) = followLoop 1 (segments (applyGrowth p))"
  by (simp add: updateSnakeSegments_def Let_def)

lemma updateSnakeSegments_growth: "growth (updateSnakeSegments p) = growth (applyGrowth p)"
  by (simp add: updateSnakeSegments_def Let_def)

text \<open>
  C7. The kinematics step applies pending growth first: with a positive growth counter
  one copy of the tail segment is appended and the counter goes down by one. Then the
  head stays, and every later segment \<open>i\<close> is compared with its predecessor as already
  written in this pass: beyond 1.2 times the segment distance it moves half way
  (interpolation factor 0.5) to the point at exactly the segment distance from that
  predecessor, otherwise it stays where it was.
\<close>

theorem C7_updateSnakeSegments_kinematics:
  "segments p \<noteq> [] \<Longrightarrow>
   (let grown = (if growth p > 0 then segments p @ [last (segments p)] else segments p);
        r = segments (updateSnakeSegments p)
    in growth (updateSnakeSegments p) = (if growth p > 0 then growth p - 1 else growth p)
       \<and> length r = length grown
       \<and> r ! 0 = grown ! 0
       \<and> (\<forall>i. 1 \<le> i \<and> i < length grown \<longrightarrow>
            (if distance (r ! (i - 1)) (grown ! i) > 1.2 * SEGMENT_DISTANCE
             then r ! i = lerp (grown ! i)
                            (pointAtDistance (r ! (i - 1)) (grown ! i) SEGMENT_DISTANCE) 0.5
                  \<and> distance (r ! (i - 1))
                       (pointAtDistance (r ! (i - 1)) (grown ! i) SEGMENT_DISTANCE)
                     = SEGMENT_DISTANCE
             else r ! i = grown ! i)))"
proof -
  assume ne: "segments p \<noteq> []"
  define grown where "grown = (if growth p > 0 then segments p @ [last (segments p)] else segments p)"
  define r where "r = segments (updateSnakeSegments p)"
  have g: "segments (applyGrowth p) = grown"
    using ne by (simp add: applyGrowth_segments grown_def)
  have r: "r = followLoop 1 grown"
    by (simp add: r_def updateSnakeSegments_segments g)
  have c1: "growth (updateSnakeSegments p) = (if growth p > 0 then growth p - 1 else growth p)"
    using ne by (simp add: updateSnakeSegments_growth applyGrowth_growth)
  have c2: "length r = length grown"
    by (simp add: r followLoop_length)
  have c3: "r ! 0 = grown ! 0"
    unfolding r by (rule followLoop_prefix) simp
  have c4: "if distance (r ! (i - 1)) (grown ! i) > 1.2 * SEGMENT_DISTANCE
            then r ! i = lerp (grown ! i)
                           (pointAtDistance (r ! (i - 1)) (grown ! i) SEGMENT_DISTANCE) 0.5
                 \<and> distance (r ! (i - 1))
                      (pointAtDistance (r ! (i - 1)) (grown ! i) SEGMENT_DISTANCE)
                    = SEGMENT_DISTANCE
            else r ! i = grown ! i"
    if i: "1 \<le> i" "i < length grown" for i
  proof -
    have e: "r ! i = ease (r ! (i - 1)) (grown ! i)"
      unfolding r using i by (intro followLoop_nth) simp_all
    show ?thesis
    proof (cases "distance (r ! (i - 1)) (grown ! i) > 1.2 * SEGMENT_DISTANCE")
      case True
      then have pos: "distance (r ! (i - 1)) (grown ! i) > 0" by simp
      have exact: "distance (r ! (i - 1))
                     (pointAtDistance (r ! (i - 1)) (grown ! i) SEGMENT_DISTANCE)
                   = SEGMENT_DISTANCE"
        by (rule pointAtDistance_exact) (use pos in simp_all)
      have "ease (r ! (i - 1)) (grown ! i)
            = lerp (grown ! i) (pointAtDistance (r ! (i - 1)) (grown ! i) SEGMENT_DISTANCE) 0.5"
        using True by (simp only: ease_eq if_True)
      with e have "r ! i
            = lerp (grown ! i) (pointAtDistance (r ! (i - 1)) (grown ! i) SEGMENT_DISTANCE) 0.5"
        by (rule trans)
      with exact have "r ! i = lerp (grown ! i)
                           (pointAtDistance (r ! (i - 1)) (grown ! i) SEGMENT_DISTANCE) 0.5
                 \<and> distance (r ! (i - 1))
                      (pointAtDistance (r ! (i - 1)) (grown ! i) SEGMENT_DISTANCE)
                    = SEGMENT_DISTANCE"
        by (intro conjI)
      then show ?thesis by (simp only: True if_True)
    next
      case False
      then have "ease (r ! (i - 1)) (grown ! i) = grown ! i"
        by (simp only: ease_eq if_False)
      with e have "r ! i = grown ! i" by (rule trans)
      then show ?thesis by (simp only: False if_False)
    qed
  qed
  have "growth (updateSnakeSegments p) = (if growth p > 0 then growth p - 1 else growth p)
       \<and> length r = length grown
       \<and> r ! 0 = grown ! 0
       \<and> (\<forall>i. 1 \<le> i \<and> i < length grown \<longrightarrow>
            (if distance (r ! (i - 1)) (grown ! i) > 1.2 * SEGMENT_DISTANCE
             then r ! i = lerp (grown ! i)
                            (pointAtDistance (r ! (i - 1)) (grown ! i) SEGMENT_DISTANCE) 0.5
                  \<and> distance (r ! (i - 1))
                       (pointAtDistance (r ! (i - 1)) (grown ! i) SEGMENT_DISTANCE)
                     = SEGMENT_DISTANCE
             else r ! i = grown ! i))"
  proof (intro conjI allI impI)
    show "growth (updateSnakeSegments p) = (if growth p > 0 then growth p - 1 else growth p)"
      by (rule c1)
    show "length r = length grown" by (rule c2)
    show "r ! 0 = grown ! 0" by (rule c3)
  next
    fix i assume "1 \<le> i \<and> i < length grown"
    then have "1 \<le> i" "i < length grown" by simp_all
    then show "if distance (r ! (i - 1)) (grown ! i) > 1.2 * SEGMENT_DISTANCE
             then r ! i = lerp (grown ! i)
                            (pointAtDistance (r ! (i - 1)) (grown ! i) SEGMENT_DISTANCE) 0.5
                  \<and> distance (r ! (i - 1))
                       (pointAtDistance (r ! (i - 1)) (grown ! i) SEGMENT_DISTANCE)
                     = SEGMENT_DISTANCE
             else r ! i = grown ! i"
      by (rule c4)
  qed
  then show ?thesis
    unfolding Let_def grown_def r_def .
qed

theorem C7_updateSnakeSegments_kinematics_witness:
  "segments snake_two \<noteq> []
   \<and> growth (updateSnakeSegments snake_two) = 0
   \<and> length (segments (updateSnakeSegments snake_two)) = 3
   \<and> segments (updateSnakeSegments snake_two) ! 1 = \<lparr>px = 0, py = 30\<rparr>"
proof -
  have ne: "segments snake_two \<noteq> []" by (simp add: snake_two_def)
  let ?r = "segments (updateSnakeSegments snake_two)"
  let ?grown = "[\<lparr>px = 0, py = 0\<rparr>, \<lparr>px = 0, py = 40\<rparr>, \<lparr>px = 0, py = 40\<rparr>]"
  have gr: "(if growth snake_two > 0 then segments snake_two @ [last (segments snake_two)]
            else segments snake_two) = ?grown"
    by (simp add: snake_two_def)
  note th = C7_updateSnakeSegments_kinematics [OF ne, unfolded Let_def gr]
  note g0 = th [THEN conjunct1]
  note l0 = th [THEN conjunct2, THEN conjunct1]
  note h0 = th [THEN conjunct2, THEN conjunct2, THEN conjunct1]
  note a0 = th [THEN conjunct2, THEN conjunct2, THEN conjunct2, THEN spec, of 1]
  from g0 have g: "growth (updateSnakeSegments snake_two) = 0" by (simp add: snake_two_def)
  from l0 have l: "length ?r = 3" by simp
  from h0 have h: "?r ! 0 = \<lparr>px = 0, py = 0\<rparr>" by simp
  have d: "distance \<lparr>px = 0, py = 0\<rparr> \<lparr>px = 0, py = 40\<rparr> = 40"
    by (simp add: distance_def sqrt_1600)
  have pre: "1 \<le> (1::nat) \<and> 1 < length ?grown" by simp
  note b0 = a0 [THEN mp, OF pre]
  have c: "distance (?r ! (1 - 1)) (?grown ! 1) > 1.2 * SEGMENT_DISTANCE"
    by (simp add: h d)
  note e0 = b0 [unfolded if_P [OF c], THEN conjunct1]
  have "?r ! 1 = \<lparr>px = 0, py = 30\<rparr>"
    unfolding e0 by (simp add: h d lerp_def pointAtDistance_def)
  with ne g l show ?thesis by simp
qed

section \<open>Basic facts\<close>

lemma upd_gs_fields [simp]:
  "players (upd_gs f s) = players s"
  "gameState (upd_gs f s) = f (gameState s)"
  "recentAnnouncements (upd_gs f s) = recentAnnouncements s"
  "timers (upd_gs f s) = timers s"
  "outbox (upd_gs f s) = outbox s"
  "rng (upd_gs f s) = rng s"
  "rngIdx (upd_gs f s) = rngIdx s"
  by (simp_all add: upd_gs_def)

lemma upd_player_fields [simp]:
  "gameState (upd_player w f s) = gameState s"
  "recentAnnouncements (upd_player w f s) = recentAnnouncements s"
  "timers (upd_player w f s) = timers s"
  "outbox (upd_player w f s) = outbox s"
  "rng (upd_player w f s) = rng s"
  "rngIdx (upd_player w f s) = rngIdx s"
  by (simp_all add: upd_player_def)

lemma send_fields [simp]:
  "players (send w m s) = players s"
  "gameState (send w m s) = gameState s"
  "recentAnnouncements (send w m s) = recentAnnouncements s"
  "timers (send w m s) = timers s"
  "outbox (send w m s) = outbox s @ [(w, m)]"
  "rng (send w m s) = rng s"
  "rngIdx (send w m s) = rngIdx s"
  by (simp_all add: send_def)

lemma broadcast_fields [simp]:
  "players (broadcast m s) = players s"
  "gameState (broadcast m s) = gameState s"
  "recentAnnouncements (broadcast m s) = recentAnnouncements s"
  "timers (broadcast m s) = timers s"
  "outbox (broadcast m s) = outbox s @ map (\<lambda>(w, p). (w, m)) (players s)"
  "rng (broadcast m s) = rng s"
  "rngIdx (broadcast m s) = rngIdx s"
  by (simp_all add: broadcast_def)

lemma addTimer_fields [simp]:
  "players (addTimer d t s) = players s"
  "gameState (addTimer d t s) = gameState s"
  "recentAnnouncements (addTimer d t s) = recentAnnouncements s"
  "timers (addTimer d t s) = timers s @ [(d, t)]"
  "outbox (addTimer d t s) = outbox s"
  "rng (addTimer d t s) = rng s"
  "rngIdx (addTimer d t s) = rngIdx s"
  by (simp_all add: addTimer_def)

lemma broadcastAnnouncement_fields [simp]:
  "players (broadcastAnnouncement now msg ty dur s) = players s"
  "gameState (broadcastAnnouncement now msg ty dur s) = (gameState s)\<lparr>lastAnnouncementTime := now\<rparr>"
  "timers (broadcastAnnouncement now msg ty dur s) = timers s"
  "outbox (broadcastAnnouncement now msg ty dur s) =
     outbox s @ map (\<lambda>(w, p). (w, AnnouncementMsg \<lparr>message = msg, atype = ty, duration = dur\<rparr>)) (players s)"
  "rng (broadcastAnnouncement now msg ty dur s) = rng s"
  "rngIdx (broadcastAnnouncement now msg ty dur s) = rngIdx s"
  by (simp_all add: broadcastAnnouncement_def Let_def)

lemma mathRandom_eq [simp]:
  "fst (mathRandom s) = rng s (rngIdx s)"
  "snd (mathRandom s) = s\<lparr>rngIdx := rngIdx s + 1\<rparr>"
  by (simp_all add: mathRandom_def)

lemma keys_map_upd:
  "map fst (map (\<lambda>(w', p). if w' = w then (w', f p) else (w', p)) ps) = map fst ps"
  by (induction ps) auto

lemma map_of_map_upd:
  "map_of (map (\<lambda>(w', p). if w' = w then (w', f p) else (w', p)) ps) w' =
     (if w' = w then map_option f (map_of ps w') else map_of ps w')"
  by (induction ps) auto

lemma keys_upd_player [simp]: "map fst (players (upd_player w f s)) = map fst (players s)"
  using keys_map_upd [of w f "players s"] by (simp add: upd_player_def)

lemma length_players_upd_player [simp]: "length (players (upd_player w f s)) = length (players s)"
  by (simp add: upd_player_def)

lemma getPlayer_upd_player:
  "getPlayer (upd_player w f s) w' =
     (if w' = w then map_option f (getPlayer s w') else getPlayer s w')"
  by (simp add: getPlayer_def upd_player_def map_of_map_upd)

lemma getPlayer_basic [simp]:
  "getPlayer (upd_gs g s) = getPlayer s"
  "getPlayer (send w m s) = getPlayer s"
  "getPlayer (broadcast m s) = getPlayer s"
  "getPlayer (addTimer d t s) = getPlayer s"
  "getPlayer (broadcastAnnouncement now msg ty dur s) = getPlayer s"
  by (simp_all add: getPlayer_def fun_eq_iff)

lemma gameOverSent_basic [simp]:
  "gameOverSent (upd_gs g s) = gameOverSent s"
  "gameOverSent (upd_player w f s) = gameOverSent s"
  "gameOverSent (addTimer d t s) = gameOverSent s"
  "gameOverSent (broadcastAnnouncement now msg ty dur s) = gameOverSent s"
  "gameOverSent (send w m s) = gameOverSent s + (if isGameOverMsg m then 1 else 0)"
  "gameOverSent (broadcast m s) = gameOverSent s + (if isGameOverMsg m then length (players s) else 0)"
  by (simp_all add: gameOverSent_def isGameOverMsg_def filter_map comp_def split_def)

lemma quiet_refl [simp]: "quiet s s"
  by (simp add: quiet_def)

lemma quiet_trans: "quiet s s1 \<Longrightarrow> quiet s1 s2 \<Longrightarrow> quiet s s2"
  by (simp add: quiet_def)

lemma quiet_flags:
  assumes "quiet s s'"
  shows "isActive (gameState s') = isActive (gameState s)"
    and "waitingForPlayers (gameState s') = waitingForPlayers (gameState s)"
    and "gameOver (gameState s') = gameOver (gameState s)"
    and "roundNumber (gameState s') = roundNumber (gameState s)"
    and "serverTime (gameState s') = serverTime (gameState s)"
    and "winner (gameState s') = winner (gameState s)"
    and "roundEndTime (gameState s') = roundEndTime (gameState s)"
proof -
  from assms have e: "(gameState s')\<lparr>lastAnnouncementTime := 0, food := []\<rparr>
                    = (gameState s)\<lparr>lastAnnouncementTime := 0, food := []\<rparr>"
    by (simp add: quiet_def)
  from arg_cong [OF e, of isActive] show "isActive (gameState s') = isActive (gameState s)" by simp
  from arg_cong [OF e, of waitingForPlayers]
  show "waitingForPlayers (gameState s') = waitingForPlayers (gameState s)" by simp
  from arg_cong [OF e, of gameOver] show "gameOver (gameState s') = gameOver (gameState s)" by simp
  from arg_cong [OF e, of roundNumber] show "roundNumber (gameState s') = roundNumber (gameState s)" by simp
  from arg_cong [OF e, of serverTime] show "serverTime (gameState s') = serverTime (gameState s)" by simp
  from arg_cong [OF e, of winner] show "winner (gameState s') = winner (gameState s)" by simp
  from arg_cong [OF e, of roundEndTime] show "roundEndTime (gameState s') = roundEndTime (gameState s)" by simp
qed

lemma quiet_fields:
  assumes "quiet s s'"
  shows "timers s' = timers s"
    and "gameOverSent s' = gameOverSent s" and "map fst (players s') = map fst (players s)"
    and "length (players s') = length (players s)"
proof -
  from assms show "timers s' = timers s"
    "gameOverSent s' = gameOverSent s" and k: "map fst (players s') = map fst (players s)"
    by (simp_all add: quiet_def)
  from arg_cong [OF k, of length] show "length (players s') = length (players s)" by simp
qed

lemma quiet_rc: "quiet s s' \<Longrightarrow> rc s' = rc s"
  by (simp add: rc_def quiet_flags quiet_fields)

lemma getPlayer_cong: "players s' = players s \<Longrightarrow> getPlayer s' = getPlayer s"
  by (simp add: getPlayer_def fun_eq_iff)

lemma sentTo_simps [simp]:
  "sentTo w P [] = []"
  "sentTo w P ((w', m) # box) = (if w' = w \<and> P m then (w', m) # sentTo w P box else sentTo w P box)"
  "sentTo w P (xs @ ys) = sentTo w P xs @ sentTo w P ys"
  by (simp_all add: sentTo_def)

lemma sentTo_announcements [simp]:
  "(\<And>a. \<not> P (AnnouncementMsg a)) \<Longrightarrow>
   sentTo w P (map (\<lambda>(w', p). (w', AnnouncementMsg a)) ps) = []"
  by (induction ps) (auto simp: sentTo_def)

section \<open>Snake collisions\<close>

lemma moverHitsTail_eq:
  "moverHitsTail now cw wa h segs s =
     (if \<exists>seg\<in>set segs. distance h seg < COLLISION_DISTANCE then killByTail now cw wa s else s)"
  by (induction segs) auto

lemma otherHitsTail_eq:
  "otherHitsTail cw wa h segs s =
     (if \<exists>seg\<in>set segs. distance h seg < COLLISION_DISTANCE then killedByMover cw wa s else s)"
  by (induction segs) auto

lemma killByTail_players:
  "players (killByTail now cw wa s) =
   players (upd_player wa (\<lambda>p. p\<lparr>kills := kills p + 1, score := score p + 5,
                                   growth := growth p + KILL_SEGMENTS_GROWTH\<rparr>)
              (upd_player cw (\<lambda>p. p\<lparr>alive := False\<rparr>) s))"
  by (simp add: killByTail_def Let_def split: option.splits)

lemma killedByMover_players:
  "players (killedByMover cw wa s) =
   players (upd_player cw (\<lambda>p. p\<lparr>kills := kills p + 1, score := score p + 1,
                                   growth := growth p + KILL_SEGMENTS_GROWTH\<rparr>)
              (upd_player wa (\<lambda>p. p\<lparr>alive := False\<rparr>) s))"
  by (simp add: killedByMover_def Let_def split: option.splits)

lemma headCollision_players:
  "players (headCollision now cw wa s) =
   players (upd_player wa (\<lambda>p. p\<lparr>alive := False\<rparr>) (upd_player cw (\<lambda>p. p\<lparr>alive := False\<rparr>) s))"
  by (simp add: headCollision_def Let_def split: option.splits)

lemma killByTail_quiet: "quiet s (killByTail now cw wa s)"
  by (simp add: quiet_def killByTail_def Let_def isGameOverMsg_def split: option.splits)

lemma killedByMover_quiet: "quiet s (killedByMover cw wa s)"
  by (simp add: quiet_def killedByMover_def Let_def isGameOverMsg_def split: option.splits)

lemma headCollision_quiet: "quiet s (headCollision now cw wa s)"
  by (simp add: quiet_def headCollision_def Let_def isGameOverMsg_def split: option.splits)

lemma collidePair_quiet: "quiet s (collidePair now cw wa s)"
  by (auto simp: collidePair_def moverHitsTail_eq otherHitsTail_eq headCollision_quiet
        killByTail_quiet killedByMover_quiet
      intro: quiet_trans [OF killByTail_quiet killedByMover_quiet]
      split: option.splits list.splits)

lemma collisionLoop_quiet: "quiet s (collisionLoop now cw ws s)"
proof (induction ws arbitrary: s)
  case Nil
  show ?case by simp
next
  case (Cons wa ws)
  show ?case using quiet_trans [OF collidePair_quiet Cons] by simp
qed

lemma checkCollisions_quiet: "quiet s (checkCollisions now cw s)"
  by (simp add: checkCollisions_def collisionLoop_quiet)

lemma skeleton_upd_player:
  "(\<And>p. pid (f p) = pid p \<and> segments (f p) = segments p) \<Longrightarrow>
   skeleton (upd_player w f s) = skeleton s"
  by (auto simp: skeleton_def upd_player_def)

lemma skeleton_cong: "players s' = players s \<Longrightarrow> skeleton s' = skeleton s"
  by (simp add: skeleton_def)

lemma skeleton_keys: "map fst (skeleton s) = map fst (players s)"
  by (simp add: skeleton_def comp_def split_def)

lemma map_of_skeleton:
  "map_of (skeleton s) w = map_option (\<lambda>q. (pid q, segments q)) (getPlayer s w)"
  unfolding skeleton_def getPlayer_def by (induction "players s" arbitrary: s) (auto simp: map_of_map)

lemma killByTail_skeleton: "skeleton (killByTail now cw wa s) = skeleton s"
  by (simp add: skeleton_cong [OF killByTail_players] skeleton_upd_player)

lemma killedByMover_skeleton: "skeleton (killedByMover cw wa s) = skeleton s"
  by (simp add: skeleton_cong [OF killedByMover_players] skeleton_upd_player)

lemma headCollision_skeleton: "skeleton (headCollision now cw wa s) = skeleton s"
  by (simp add: skeleton_cong [OF headCollision_players] skeleton_upd_player)

lemma collidePair_skeleton: "skeleton (collidePair now cw wa s) = skeleton s"
  by (simp add: collidePair_def moverHitsTail_eq otherHitsTail_eq headCollision_skeleton
        killByTail_skeleton killedByMover_skeleton split: option.splits list.splits)

lemma collisionLoop_skeleton: "skeleton (collisionLoop now cw ws s) = skeleton s"
  by (induction ws arbitrary: s) (simp_all add: collidePair_skeleton)

lemma getPlayer_killByTail:
  "getPlayer (killByTail now cw wa s) w =
   getPlayer (upd_player wa (\<lambda>p. p\<lparr>kills := kills p + 1, score := score p + 5,
                                   growth := growth p + KILL_SEGMENTS_GROWTH\<rparr>)
              (upd_player cw (\<lambda>p. p\<lparr>alive := False\<rparr>) s)) w"
  by (simp add: getPlayer_cong [OF killByTail_players])

lemma getPlayer_killedByMover:
  "getPlayer (killedByMover cw wa s) w =
   getPlayer (upd_player cw (\<lambda>p. p\<lparr>kills := kills p + 1, score := score p + 1,
                                   growth := growth p + KILL_SEGMENTS_GROWTH\<rparr>)
              (upd_player wa (\<lambda>p. p\<lparr>alive := False\<rparr>) s)) w"
  by (simp add: getPlayer_cong [OF killedByMover_players])

lemma getPlayer_headCollision:
  "getPlayer (headCollision now cw wa s) w =
   getPlayer (upd_player wa (\<lambda>p. p\<lparr>alive := False\<rparr>) (upd_player cw (\<lambda>p. p\<lparr>alive := False\<rparr>) s)) w"
  by (simp add: getPlayer_cong [OF headCollision_players])

lemmas getPlayer_effects = getPlayer_killByTail getPlayer_killedByMover getPlayer_headCollision
  getPlayer_upd_player

text \<open>A session other than the two of a pair is not touched by the pair's iteration.\<close>

lemma collidePair_getPlayer_other:
  "w \<noteq> cw \<Longrightarrow> w \<noteq> wa \<Longrightarrow> getPlayer (collidePair now cw wa s) w = getPlayer s w"
  by (simp add: collidePair_def moverHitsTail_eq otherHitsTail_eq getPlayer_effects
      split: option.splits list.splits)

lemma collidePair_skip_dead:
  "getPlayer s wa = Some p \<Longrightarrow> \<not> alive p \<Longrightarrow> collidePair now cw wa s = s"
  by (simp add: collidePair_def split: option.splits)

lemma collidePair_dead_stays:
  "map_option alive (getPlayer s w) = Some False \<Longrightarrow>
   map_option alive (getPlayer (collidePair now cw wa s) w) = Some False"
  by (auto simp: collidePair_def moverHitsTail_eq otherHitsTail_eq getPlayer_effects
      split: option.splits list.splits)

lemma sentTo_killByTail:
  assumes "\<And>a. \<not> P (AnnouncementMsg a)" and "wa \<noteq> cw"
  shows "sentTo w P (outbox (killByTail now cw wa s)) =
         sentTo w P (outbox s) @
         (case (getPlayer s wa, getPlayer s cw) of
            (Some pa, Some cp) \<Rightarrow>
              sentTo w P [(cw, Died tailReason (Some (pid pa))),
                          (wa, Kill (kills pa + 1) (score pa + 5) (Some KILL_SEGMENTS_GROWTH) (pid cp))]
          | _ \<Rightarrow> [])"
  using assms by (auto simp: killByTail_def Let_def getPlayer_upd_player split: option.splits)

lemma sentTo_killedByMover:
  assumes "wa \<noteq> cw"
  shows "sentTo w P (outbox (killedByMover cw wa s)) =
         sentTo w P (outbox s) @
         (case (getPlayer s wa, getPlayer s cw) of
            (Some pa, Some cp) \<Rightarrow>
              sentTo w P [(wa, Died tailReason (Some (pid cp))),
                          (cw, Kill (kills cp + 1) (score cp + 1) None (pid pa))]
          | _ \<Rightarrow> [])"
  using assms by (auto simp: killedByMover_def Let_def getPlayer_upd_player split: option.splits)

lemma sentTo_headCollision:
  assumes "\<And>a. \<not> P (AnnouncementMsg a)"
  shows "sentTo w P (outbox (headCollision now cw wa s)) =
         sentTo w P (outbox s) @
         sentTo w P [(cw, Died ''Head collision'' None), (wa, Died ''Head collision'' None)]"
  using assms by (auto simp: headCollision_def Let_def getPlayer_upd_player split: option.splits)

lemma collidePair_sentTo_other:
  assumes "\<And>a. \<not> P (AnnouncementMsg a)" and "w \<noteq> cw" and "w \<noteq> wa"
  shows "sentTo w P (outbox (collidePair now cw wa s)) = sentTo w P (outbox s)"
  using assms
  by (auto simp: collidePair_def moverHitsTail_eq otherHitsTail_eq sentTo_killByTail
        sentTo_killedByMover sentTo_headCollision getPlayer_effects
      split: option.splits list.splits)

lemma killByTail_outbox_mono: "set (outbox s) \<subseteq> set (outbox (killByTail now cw wa s))"
  by (auto simp: killByTail_def Let_def split: option.splits)

lemma killedByMover_outbox_mono: "set (outbox s) \<subseteq> set (outbox (killedByMover cw wa s))"
  by (auto simp: killedByMover_def Let_def split: option.splits)

lemma headCollision_outbox_mono: "set (outbox s) \<subseteq> set (outbox (headCollision now cw wa s))"
  by (auto simp: headCollision_def Let_def split: option.splits)

lemma moverHitsTail_outbox_mono:
  "set (outbox s) \<subseteq> set (outbox (moverHitsTail now cw wa h segs s))"
  by (simp add: moverHitsTail_eq killByTail_outbox_mono)

lemma otherHitsTail_outbox_mono:
  "set (outbox s) \<subseteq> set (outbox (otherHitsTail cw wa h segs s))"
  by (simp add: otherHitsTail_eq killedByMover_outbox_mono)

lemma collidePair_outbox_mono: "set (outbox s) \<subseteq> set (outbox (collidePair now cw wa s))"
proof -
  have a: "set (outbox s) \<subseteq> set (outbox (otherHitsTail cw wa h1 t1 (moverHitsTail now cw wa h2 t2 s)))"
    for h1 t1 h2 t2
    using moverHitsTail_outbox_mono otherHitsTail_outbox_mono by (rule subset_trans)
  show ?thesis
    by (simp add: collidePair_def a headCollision_outbox_mono split: option.splits list.splits)
qed

lemma collisionLoop_outbox_mono: "set (outbox s) \<subseteq> set (outbox (collisionLoop now cw ws s))"
proof (induction ws arbitrary: s)
  case Nil
  show ?case by simp
next
  case (Cons wa ws)
  show ?case using subset_trans [OF collidePair_outbox_mono Cons] by simp
qed

lemma collisionLoop_append:
  "collisionLoop now cw (xs @ ys) s = collisionLoop now cw ys (collisionLoop now cw xs s)"
  by (induction xs arbitrary: s) simp_all

lemma collisionLoop_getPlayer_other:
  "w \<noteq> cw \<Longrightarrow> w \<notin> set ws \<Longrightarrow> getPlayer (collisionLoop now cw ws s) w = getPlayer s w"
  by (induction ws arbitrary: s) (simp_all add: collidePair_getPlayer_other)

lemma collisionLoop_sentTo_other:
  "(\<And>a. \<not> P (AnnouncementMsg a)) \<Longrightarrow> w \<noteq> cw \<Longrightarrow> w \<notin> set ws \<Longrightarrow>
   sentTo w P (outbox (collisionLoop now cw ws s)) = sentTo w P (outbox s)"
  by (induction ws arbitrary: s) (simp_all add: collidePair_sentTo_other)

lemma collisionLoop_dead_stays:
  "map_option alive (getPlayer s w) = Some False \<Longrightarrow>
   map_option alive (getPlayer (collisionLoop now cw ws s) w) = Some False"
proof (induction ws arbitrary: s)
  case Nil
  then show ?case by simp
next
  case (Cons wa ws)
  from Cons.prems have "map_option alive (getPlayer (collidePair now cw wa s) w) = Some False"
    by (rule collidePair_dead_stays)
  then have "map_option alive (getPlayer (collisionLoop now cw ws (collidePair now cw wa s)) w)
             = Some False"
    by (rule Cons.IH)
  then show ?case by simp
qed

lemma getPlayer_static:
  assumes "skeleton s' = skeleton s"
  shows "map_option pid (getPlayer s' w) = map_option pid (getPlayer s w)"
    and "map_option segments (getPlayer s' w) = map_option segments (getPlayer s w)"
proof -
  from assms have "map_of (skeleton s') w = map_of (skeleton s) w" by simp
  then have e: "map_option (\<lambda>q. (pid q, segments q)) (getPlayer s' w)
              = map_option (\<lambda>q. (pid q, segments q)) (getPlayer s w)"
    by (simp only: map_of_skeleton)
  from arg_cong [OF e, of "map_option fst"]
  show "map_option pid (getPlayer s' w) = map_option pid (getPlayer s w)"
    by (simp add: option.map_comp comp_def)
  from arg_cong [OF e, of "map_option snd"]
  show "map_option segments (getPlayer s' w) = map_option segments (getPlayer s w)"
    by (simp add: option.map_comp comp_def)
qed

lemma dist_eval:
  "(distance (pos a b) (pos c d) < 20) = ((a - c)\<^sup>2 + (b - d)\<^sup>2 < 400)"
  by (simp add: distance_def pos_def sqrt_less_num)

lemmas collide_eval = checkCollisions_def collidePair_def getPlayer_def arena_def snake_def
  killedByMover_def killByTail_def headCollision_def upd_player_def broadcastAnnouncement_def
  Let_def dist_eval isKill_def isDied_def

text \<open>
  C10. The two tail-collision directions send different \<open>kill\<close> messages. When the head
  of another snake is on the mover's tail, the mover is sent \<open>kill\<close> with \<open>victim\<close>,
  \<open>kills\<close> and \<open>score\<close> and no \<open>growth\<close> field; when the mover's head is on another
  snake's tail, that snake is sent \<open>kill\<close> with all four fields.
\<close>

theorem C10_kill_message_without_growth:
  "sentTo 1 isKill (outbox (checkCollisions 0 1 tail_under_head)) = [(1, Kill 1 1 None ''other'')]
   \<and> sentTo 1 isKill (outbox (checkCollisions 0 2 tail_under_head))
       = [(1, Kill 1 5 (Some KILL_SEGMENTS_GROWTH) ''other'')]"
  by (simp add: tail_under_head_def collide_eval)


lemma tail_branch_resolution:
  assumes dk: "distinct (map fst (players s))"
    and gc: "getPlayer s cw = Some cp" and ga: "getPlayer s wa = Some pa" and ne: "wa \<noteq> cw"
    and al: "alive pa" and sc: "segments cp = hc # tc" and sa: "segments pa = ha # ta"
    and nh: "\<not> distance hc ha < COLLISION_DISTANCE"
    and hit: "\<exists>seg\<in>set ta. distance hc seg < COLLISION_DISTANCE"
  shows "\<exists>cp' pa'. getPlayer (checkCollisions now cw s) cw = Some cp' \<and> \<not> alive cp'
           \<and> getPlayer (checkCollisions now cw s) wa = Some pa'
           \<and> kills pa' = kills pa + 1 \<and> score pa' = score pa + 5
           \<and> growth pa' = growth pa + KILL_SEGMENTS_GROWTH
           \<and> (cw, Died tailReason (Some (pid pa))) \<in> set (outbox (checkCollisions now cw s))
           \<and> sentTo wa isKill (outbox (checkCollisions now cw s))
               = sentTo wa isKill (outbox s)
                 @ [(wa, Kill (kills pa + 1) (score pa + 5) (Some KILL_SEGMENTS_GROWTH) (pid cp))]"
proof -
  have noann: "\<not> isKill (AnnouncementMsg a)" for a by (simp add: isKill_def)
  from ga have "(wa, pa) \<in> set (players s)" by (simp add: getPlayer_def map_of_SomeD)
  then have "wa \<in> set (map fst (players s))" by force
  then obtain pre post where keys: "map fst (players s) = pre @ wa # post"
    by (auto dest: split_list)
  with dk have npre: "wa \<notin> set pre" and npost: "wa \<notin> set post" by auto
  define s1 where "s1 = collisionLoop now cw pre s"
  define s15 where "s15 = killByTail now cw wa s1"
  define s2 where "s2 = collidePair now cw wa s1"
  define s3 where "s3 = collisionLoop now cw post s2"
  have s3: "checkCollisions now cw s = s3"
    by (simp add: checkCollisions_def keys collisionLoop_append s3_def s2_def s1_def)
  have g1a: "getPlayer s1 wa = Some pa"
    unfolding s1_def using ne npre ga by (simp add: collisionLoop_getPlayer_other)
  have sk1: "skeleton s1 = skeleton s" by (simp add: s1_def collisionLoop_skeleton)
  from getPlayer_static [OF sk1, of cw] gc sc
  obtain cp1 where g1c: "getPlayer s1 cw = Some cp1" and sc1: "segments cp1 = hc # tc"
    and pc1: "pid cp1 = pid cp" by auto
  have o1: "sentTo wa isKill (outbox s1) = sentTo wa isKill (outbox s)"
    unfolding s1_def using noann ne npre by (simp add: collisionLoop_sentTo_other)
  have s2eq: "s2 = otherHitsTail cw wa ha tc s15"
    unfolding s2_def s15_def using g1a g1c ne al sa sc1 nh hit
    by (simp add: collidePair_def moverHitsTail_eq)
  have g15a: "getPlayer s15 wa = Some (pa\<lparr>kills := kills pa + 1, score := score pa + 5,
                                          growth := growth pa + KILL_SEGMENTS_GROWTH\<rparr>)"
    unfolding s15_def using g1a ne by (simp add: getPlayer_effects)
  have g15c: "getPlayer s15 cw = Some (cp1\<lparr>alive := False\<rparr>)"
    unfolding s15_def using g1c ne by (simp add: getPlayer_effects)
  have o15: "sentTo wa isKill (outbox s15)
             = sentTo wa isKill (outbox s1)
               @ [(wa, Kill (kills pa + 1) (score pa + 5) (Some KILL_SEGMENTS_GROWTH) (pid cp))]"
    unfolding s15_def using g1a g1c ne pc1 by (simp add: sentTo_killByTail [where P = isKill, OF noann ne] isKill_def)
  have d15: "(cw, Died tailReason (Some (pid pa))) \<in> set (outbox s15)"
    unfolding s15_def using g1a g1c ne by (simp add: killByTail_def Let_def getPlayer_upd_player)
  have "\<exists>pa2. getPlayer s2 wa = Some pa2 \<and> kills pa2 = kills pa + 1
           \<and> score pa2 = score pa + 5 \<and> growth pa2 = growth pa + KILL_SEGMENTS_GROWTH"
    unfolding s2eq otherHitsTail_eq using g15a ne by (simp add: getPlayer_effects)
  then obtain pa2 where g2a: "getPlayer s2 wa = Some pa2" and k2: "kills pa2 = kills pa + 1"
    and sc2: "score pa2 = score pa + 5" and gr2: "growth pa2 = growth pa + KILL_SEGMENTS_GROWTH"
    by blast
  have g2c: "map_option alive (getPlayer s2 cw) = Some False"
    unfolding s2eq otherHitsTail_eq using g15c ne by (auto simp: getPlayer_effects)
  have o2: "sentTo wa isKill (outbox s2) = sentTo wa isKill (outbox s15)"
    unfolding s2eq otherHitsTail_eq using ne g15a g15c
    by (simp add: sentTo_killedByMover isKill_def)
  have d2: "(cw, Died tailReason (Some (pid pa))) \<in> set (outbox s2)"
    using d15 otherHitsTail_outbox_mono unfolding s2eq by blast
  have g3a: "getPlayer s3 wa = Some pa2"
    unfolding s3_def using ne npost g2a by (simp add: collisionLoop_getPlayer_other)
  have "map_option alive (getPlayer s3 cw) = Some False"
    unfolding s3_def using g2c by (rule collisionLoop_dead_stays)
  then obtain cp3 where g3c: "getPlayer s3 cw = Some cp3" and a3: "\<not> alive cp3" by auto
  have o3: "sentTo wa isKill (outbox s3) = sentTo wa isKill (outbox s2)"
    unfolding s3_def using noann ne npost by (simp add: collisionLoop_sentTo_other)
  have d3: "(cw, Died tailReason (Some (pid pa))) \<in> set (outbox s3)"
    using d2 collisionLoop_outbox_mono unfolding s3_def by blast
  show ?thesis
    unfolding s3 using g3c a3 g3a k2 sc2 gr2 d3 by (simp add: o3 o2 o15 o1)
qed

lemma head_branch_resolution:
  assumes dk: "distinct (map fst (players s))"
    and gc: "getPlayer s cw = Some cp" and ga: "getPlayer s wa = Some pa" and ne: "wa \<noteq> cw"
    and al: "alive pa" and sc: "segments cp = hc # tc" and sa: "segments pa = ha # ta"
    and hd: "distance hc ha < COLLISION_DISTANCE"
  shows "\<exists>cp'. getPlayer (checkCollisions now cw s) cw = Some cp' \<and> \<not> alive cp'
           \<and> getPlayer (checkCollisions now cw s) wa = Some (pa\<lparr>alive := False\<rparr>)
           \<and> (cw, Died ''Head collision'' None) \<in> set (outbox (checkCollisions now cw s))
           \<and> (wa, Died ''Head collision'' None) \<in> set (outbox (checkCollisions now cw s))
           \<and> sentTo wa isKill (outbox (checkCollisions now cw s)) = sentTo wa isKill (outbox s)"
proof -
  have noann: "\<not> isKill (AnnouncementMsg a)" for a by (simp add: isKill_def)
  from ga have "(wa, pa) \<in> set (players s)" by (simp add: getPlayer_def map_of_SomeD)
  then have "wa \<in> set (map fst (players s))" by force
  then obtain pre post where keys: "map fst (players s) = pre @ wa # post"
    by (auto dest: split_list)
  with dk have npre: "wa \<notin> set pre" and npost: "wa \<notin> set post" by auto
  define s1 where "s1 = collisionLoop now cw pre s"
  define s2 where "s2 = collidePair now cw wa s1"
  define s3 where "s3 = collisionLoop now cw post s2"
  have s3: "checkCollisions now cw s = s3"
    by (simp add: checkCollisions_def keys collisionLoop_append s3_def s2_def s1_def)
  have g1a: "getPlayer s1 wa = Some pa"
    unfolding s1_def using ne npre ga by (simp add: collisionLoop_getPlayer_other)
  have sk1: "skeleton s1 = skeleton s" by (simp add: s1_def collisionLoop_skeleton)
  from getPlayer_static [OF sk1, of cw] gc sc
  obtain cp1 where g1c: "getPlayer s1 cw = Some cp1" and sc1: "segments cp1 = hc # tc"
    by auto
  have o1: "sentTo wa isKill (outbox s1) = sentTo wa isKill (outbox s)"
    unfolding s1_def using noann ne npre by (simp add: collisionLoop_sentTo_other)
  have s2eq: "s2 = headCollision now cw wa s1"
    unfolding s2_def using g1a g1c ne al sa sc1 hd by (simp add: collidePair_def)
  have g2a: "getPlayer s2 wa = Some (pa\<lparr>alive := False\<rparr>)"
    unfolding s2eq using g1a ne by (simp add: getPlayer_effects)
  have g2c: "map_option alive (getPlayer s2 cw) = Some False"
    unfolding s2eq using g1c ne by (simp add: getPlayer_effects)
  have o2: "sentTo wa isKill (outbox s2) = sentTo wa isKill (outbox s1)"
    unfolding s2eq by (simp add: sentTo_headCollision [where P = isKill, OF noann] isKill_def)
  have d2: "(cw, Died ''Head collision'' None) \<in> set (outbox s2)"
    "(wa, Died ''Head collision'' None) \<in> set (outbox s2)"
    unfolding s2eq
    by (simp_all add: headCollision_def Let_def split: option.splits)
  have g3a: "getPlayer s3 wa = Some (pa\<lparr>alive := False\<rparr>)"
    unfolding s3_def using ne npost g2a by (simp add: collisionLoop_getPlayer_other)
  have "map_option alive (getPlayer s3 cw) = Some False"
    unfolding s3_def using g2c by (rule collisionLoop_dead_stays)
  then obtain cp3 where g3c: "getPlayer s3 cw = Some cp3" and a3: "\<not> alive cp3" by auto
  have o3: "sentTo wa isKill (outbox s3) = sentTo wa isKill (outbox s2)"
    unfolding s3_def using noann ne npost by (simp add: collisionLoop_sentTo_other)
  have d3: "(cw, Died ''Head collision'' None) \<in> set (outbox s3)"
    "(wa, Died ''Head collision'' None) \<in> set (outbox s3)"
    using d2 collisionLoop_outbox_mono unfolding s3_def by blast+
  show ?thesis
    unfolding s3 using g3c a3 g3a d3 by (simp add: o3 o2 o1)
qed

text \<open>
  C6, as the code has it. The mover's head is within the collision distance of a tail
  segment of another alive session. The head-to-head test comes first and ends the pair's
  iteration. If the two heads are not within the collision distance, the mover is dead
  after the pass, the other session has exactly one kill, 5 points and 5 pending growth
  more, the mover is sent \<open>died\<close> with \<open>killedBy\<close> the other's id, and the other is sent
  exactly one \<open>kill\<close> message, however many of its tail segments are within reach: the loop
  over them stops at the first. If the two heads are within the collision distance too,
  both are dead after the pass, the other session's kills, score and growth are as before,
  both are sent \<open>died\<close> with the reason \<open>Head collision\<close> and no killer, and the other is
  sent no \<open>kill\<close> message.
\<close>

theorem C6_tail_collision:
  assumes dk: "distinct (map fst (players s))"
    and gc: "getPlayer s cw = Some cp" and ga: "getPlayer s wa = Some pa" and ne: "wa \<noteq> cw"
    and al: "alive pa" and sc: "segments cp = hc # tc" and sa: "segments pa = ha # ta"
    and hit: "\<exists>seg\<in>set ta. distance hc seg < COLLISION_DISTANCE"
  shows "(\<not> distance hc ha < COLLISION_DISTANCE \<longrightarrow>
           (\<exists>cp' pa'. getPlayer (checkCollisions now cw s) cw = Some cp' \<and> \<not> alive cp'
              \<and> getPlayer (checkCollisions now cw s) wa = Some pa'
              \<and> kills pa' = kills pa + 1 \<and> score pa' = score pa + 5
              \<and> growth pa' = growth pa + KILL_SEGMENTS_GROWTH
              \<and> (cw, Died tailReason (Some (pid pa))) \<in> set (outbox (checkCollisions now cw s))
              \<and> sentTo wa isKill (outbox (checkCollisions now cw s))
                  = sentTo wa isKill (outbox s)
                    @ [(wa, Kill (kills pa + 1) (score pa + 5) (Some KILL_SEGMENTS_GROWTH)
                              (pid cp))]))
       \<and> (distance hc ha < COLLISION_DISTANCE \<longrightarrow>
           (\<exists>cp'. getPlayer (checkCollisions now cw s) cw = Some cp' \<and> \<not> alive cp'
              \<and> getPlayer (checkCollisions now cw s) wa = Some (pa\<lparr>alive := False\<rparr>)
              \<and> (cw, Died ''Head collision'' None) \<in> set (outbox (checkCollisions now cw s))
              \<and> (wa, Died ''Head collision'' None) \<in> set (outbox (checkCollisions now cw s))
              \<and> sentTo wa isKill (outbox (checkCollisions now cw s))
                  = sentTo wa isKill (outbox s)))"
proof (intro conjI impI)
  assume "\<not> distance hc ha < COLLISION_DISTANCE"
  from tail_branch_resolution [OF dk gc ga ne al sc sa this hit, of now]
  show "\<exists>cp' pa'. getPlayer (checkCollisions now cw s) cw = Some cp' \<and> \<not> alive cp'
              \<and> getPlayer (checkCollisions now cw s) wa = Some pa'
              \<and> kills pa' = kills pa + 1 \<and> score pa' = score pa + 5
              \<and> growth pa' = growth pa + KILL_SEGMENTS_GROWTH
              \<and> (cw, Died tailReason (Some (pid pa))) \<in> set (outbox (checkCollisions now cw s))
              \<and> sentTo wa isKill (outbox (checkCollisions now cw s))
                  = sentTo wa isKill (outbox s)
                    @ [(wa, Kill (kills pa + 1) (score pa + 5) (Some KILL_SEGMENTS_GROWTH)
                              (pid cp))]" .
next
  assume "distance hc ha < COLLISION_DISTANCE"
  from head_branch_resolution [OF dk gc ga ne al sc sa this, of now]
  show "\<exists>cp'. getPlayer (checkCollisions now cw s) cw = Some cp' \<and> \<not> alive cp'
              \<and> getPlayer (checkCollisions now cw s) wa = Some (pa\<lparr>alive := False\<rparr>)
              \<and> (cw, Died ''Head collision'' None) \<in> set (outbox (checkCollisions now cw s))
              \<and> (wa, Died ''Head collision'' None) \<in> set (outbox (checkCollisions now cw s))
              \<and> sentTo wa isKill (outbox (checkCollisions now cw s))
                  = sentTo wa isKill (outbox s)" .
qed

theorem C6_tail_collision_witness:
  "distinct (map fst (players tail_under_head))
   \<and> getPlayer tail_under_head 2 = Some (snake ''other'' [pos 0 40])
   \<and> getPlayer tail_under_head 1 = Some (snake ''mover'' [pos 0 0, pos 0 30])
   \<and> \<not> distance (pos 0 40) (pos 0 0) < COLLISION_DISTANCE
   \<and> distance (pos 0 40) (pos 0 30) < COLLISION_DISTANCE
   \<and> (\<exists>cp' pa'. getPlayer (checkCollisions 0 2 tail_under_head) 2 = Some cp' \<and> \<not> alive cp'
         \<and> getPlayer (checkCollisions 0 2 tail_under_head) 1 = Some pa'
         \<and> kills pa' = 1 \<and> score pa' = 5 \<and> growth pa' = 5
         \<and> (2, Died tailReason (Some ''mover'')) \<in> set (outbox (checkCollisions 0 2 tail_under_head))
         \<and> sentTo 1 isKill (outbox (checkCollisions 0 2 tail_under_head))
             = [(1, Kill 1 5 (Some 5) ''other'')])
   \<and> distinct (map fst (players head_and_tail_close))
   \<and> getPlayer head_and_tail_close 1 = Some (snake ''mover'' [pos 0 0])
   \<and> getPlayer head_and_tail_close 2 = Some (snake ''other'' [pos 0 10, pos 0 5])
   \<and> distance (pos 0 0) (pos 0 10) < COLLISION_DISTANCE
   \<and> distance (pos 0 0) (pos 0 5) < COLLISION_DISTANCE
   \<and> (\<exists>cp'. getPlayer (checkCollisions 0 1 head_and_tail_close) 1 = Some cp' \<and> \<not> alive cp'
         \<and> getPlayer (checkCollisions 0 1 head_and_tail_close) 2
             = Some ((snake ''other'' [pos 0 10, pos 0 5])\<lparr>alive := False\<rparr>)
         \<and> (1, Died ''Head collision'' None) \<in> set (outbox (checkCollisions 0 1 head_and_tail_close))
         \<and> (2, Died ''Head collision'' None) \<in> set (outbox (checkCollisions 0 1 head_and_tail_close))
         \<and> sentTo 2 isKill (outbox (checkCollisions 0 1 head_and_tail_close)) = [])"
proof -
  let ?s = tail_under_head
  have dk: "distinct (map fst (players ?s))" by (simp add: tail_under_head_def arena_def)
  have gc: "getPlayer ?s 2 = Some (snake ''other'' [pos 0 40])"
    by (simp add: tail_under_head_def arena_def getPlayer_def)
  have ga: "getPlayer ?s 1 = Some (snake ''mover'' [pos 0 0, pos 0 30])"
    by (simp add: tail_under_head_def arena_def getPlayer_def)
  have ne: "(1::nat) \<noteq> 2" by simp
  have al: "alive (snake ''mover'' [pos 0 0, pos 0 30])" by (simp add: snake_def)
  have sc: "segments (snake ''other'' [pos 0 40]) = pos 0 40 # []" by (simp add: snake_def)
  have sa: "segments (snake ''mover'' [pos 0 0, pos 0 30]) = pos 0 0 # [pos 0 30]"
    by (simp add: snake_def)
  have nh: "\<not> distance (pos 0 40) (pos 0 0) < COLLISION_DISTANCE" by (simp add: dist_eval)
  have h: "distance (pos 0 40) (pos 0 30) < COLLISION_DISTANCE" by (simp add: dist_eval)
  then have hit: "\<exists>seg\<in>set [pos 0 30]. distance (pos 0 40) seg < COLLISION_DISTANCE" by simp
  have ob: "outbox ?s = []" by (simp add: tail_under_head_def arena_def)
  from C6_tail_collision [OF dk gc ga ne al sc sa hit, of 0, THEN conjunct1, THEN mp, OF nh]
  have a: "\<exists>cp' pa'. getPlayer (checkCollisions 0 2 ?s) 2 = Some cp' \<and> \<not> alive cp'
         \<and> getPlayer (checkCollisions 0 2 ?s) 1 = Some pa'
         \<and> kills pa' = 1 \<and> score pa' = 5 \<and> growth pa' = 5
         \<and> (2, Died tailReason (Some ''mover'')) \<in> set (outbox (checkCollisions 0 2 ?s))
         \<and> sentTo 1 isKill (outbox (checkCollisions 0 2 ?s)) = [(1, Kill 1 5 (Some 5) ''other'')]"
    by (simp add: ob snake_def)
  let ?t = head_and_tail_close
  have dk': "distinct (map fst (players ?t))" by (simp add: head_and_tail_close_def arena_def)
  have gc': "getPlayer ?t 1 = Some (snake ''mover'' [pos 0 0])"
    by (simp add: head_and_tail_close_def arena_def getPlayer_def)
  have ga': "getPlayer ?t 2 = Some (snake ''other'' [pos 0 10, pos 0 5])"
    by (simp add: head_and_tail_close_def arena_def getPlayer_def)
  have ne': "(2::nat) \<noteq> 1" by simp
  have al': "alive (snake ''other'' [pos 0 10, pos 0 5])" by (simp add: snake_def)
  have sc': "segments (snake ''mover'' [pos 0 0]) = pos 0 0 # []" by (simp add: snake_def)
  have sa': "segments (snake ''other'' [pos 0 10, pos 0 5]) = pos 0 10 # [pos 0 5]"
    by (simp add: snake_def)
  have hd': "distance (pos 0 0) (pos 0 10) < COLLISION_DISTANCE" by (simp add: dist_eval)
  have h': "distance (pos 0 0) (pos 0 5) < COLLISION_DISTANCE" by (simp add: dist_eval)
  then have hit': "\<exists>seg\<in>set [pos 0 5]. distance (pos 0 0) seg < COLLISION_DISTANCE" by simp
  have ob': "outbox ?t = []" by (simp add: head_and_tail_close_def arena_def)
  from C6_tail_collision [OF dk' gc' ga' ne' al' sc' sa' hit', of 0, THEN conjunct2, THEN mp, OF hd']
  have b: "\<exists>cp'. getPlayer (checkCollisions 0 1 ?t) 1 = Some cp' \<and> \<not> alive cp'
         \<and> getPlayer (checkCollisions 0 1 ?t) 2
             = Some ((snake ''other'' [pos 0 10, pos 0 5])\<lparr>alive := False\<rparr>)
         \<and> (1, Died ''Head collision'' None) \<in> set (outbox (checkCollisions 0 1 ?t))
         \<and> (2, Died ''Head collision'' None) \<in> set (outbox (checkCollisions 0 1 ?t))
         \<and> sentTo 2 isKill (outbox (checkCollisions 0 1 ?t)) = []"
    by (simp add: ob')
  from a b dk gc ga nh h dk' gc' ga' hd' h' show ?thesis by blast
qed

text \<open>
  C6 fails as stated where the mover's head is within reach of a tail segment and of the
  head of the same snake: the head-to-head branch runs, nobody is credited with a kill and
  the mover's \<open>died\<close> message names no killer.
\<close>

theorem C6_head_collision_first_counterexample:
  "getPlayer head_and_tail_close 2 = Some (snake ''other'' [pos 0 10, pos 0 5])
   \<and> getPlayer head_and_tail_close 1 = Some (snake ''mover'' [pos 0 0])
   \<and> alive (snake ''other'' [pos 0 10, pos 0 5])
   \<and> distance (pos 0 0) (pos 0 5) < COLLISION_DISTANCE
   \<and> map_option kills (getPlayer (checkCollisions 0 1 head_and_tail_close) 2) = Some 0
   \<and> map_option score (getPlayer (checkCollisions 0 1 head_and_tail_close) 2) = Some 0
   \<and> sentTo 2 isKill (outbox (checkCollisions 0 1 head_and_tail_close)) = []
   \<and> sentTo 1 isDied (outbox (checkCollisions 0 1 head_and_tail_close))
       = [(1, Died ''Head collision'' None)]"
  by (simp add: head_and_tail_close_def collide_eval)


lemma collisionLoop_dead_untouched:
  assumes "\<And>a. \<not> P (AnnouncementMsg a)" and "w \<noteq> cw"
  shows "getPlayer s w = Some p \<Longrightarrow> \<not> alive p \<Longrightarrow>
         getPlayer (collisionLoop now cw ws s) w = Some p
         \<and> sentTo w P (outbox (collisionLoop now cw ws s)) = sentTo w P (outbox s)"
proof (induction ws arbitrary: s)
  case Nil
  then show ?case by simp
next
  case (Cons wb ws)
  show ?case
  proof (cases "wb = w")
    case True
    with Cons.prems have "collidePair now cw wb s = s" by (simp add: collidePair_skip_dead)
    with Cons.IH [OF Cons.prems] show ?thesis by simp
  next
    case False
    then have g: "getPlayer (collidePair now cw wb s) w = Some p"
      using assms(2) Cons.prems(1) by (simp add: collidePair_getPlayer_other)
    have o: "sentTo w P (outbox (collidePair now cw wb s)) = sentTo w P (outbox s)"
      using assms False by (simp add: collidePair_sentTo_other)
    from Cons.IH [OF g Cons.prems(2)] show ?thesis by (simp add: o)
  qed
qed




section \<open>Food collisions\<close>

lemma find_by_pid:
  "distinct (map (\<lambda>(w', q). pid q) ps) \<Longrightarrow> map_of ps w = Some p \<Longrightarrow>
   find (\<lambda>(w', q). pid q = pid p) ps = Some (w, p)"
proof (induction ps)
  case Nil
  then show ?case by simp
next
  case (Cons a ps)
  obtain w0 p0 where a: "a = (w0, p0)" by (cases a)
  show ?case
  proof (cases "w0 = w")
    case True
    with Cons.prems a show ?thesis by simp
  next
    case False
    with Cons.prems a have m: "map_of ps w = Some p" by simp
    then have "(w, p) \<in> set ps" by (rule map_of_SomeD)
    then have "pid p \<in> set (map (\<lambda>(w', q). pid q) ps)" by force
    with Cons.prems(1) a have "pid p0 \<noteq> pid p" by auto
    with Cons.IH m Cons.prems(1) a show ?thesis by simp
  qed
qed

lemma pids_upd_player:
  "(\<And>p. pid (f p) = pid p) \<Longrightarrow>
   map (\<lambda>(w', q). pid q) (players (upd_player w f s)) = map (\<lambda>(w', q). pid q) (players s)"
  by (auto simp: upd_player_def)

lemma isFoodEaten_announcements [simp]:
  "filter (\<lambda>(w', m). isFoodEaten m) (map (\<lambda>(w', p). (w', AnnouncementMsg a)) ps) = []"
  by (induction ps) (auto simp: isFoodEaten_def)

lemma getPlayer_rngIdx [simp]: "getPlayer (s\<lparr>rngIdx := k\<rparr>) = getPlayer s"
  by (simp add: getPlayer_def fun_eq_iff)

lemma upd_player_rngIdx [simp]: "players (upd_player w f s\<lparr>rngIdx := k\<rparr>) = players (upd_player w f s)"
  by (simp add: upd_player_def)

lemma players_upd_player_upd_gs [simp]:
  "players (upd_player w f (upd_gs g s)) = players (upd_player w f s)"
  by (simp add: upd_player_def)

lemma getPlayer_upd_player_upd_gs [simp]:
  "getPlayer (upd_player w f (upd_gs g s)) = getPlayer (upd_player w f s)"
  by (simp add: getPlayer_def fun_eq_iff)

lemma foodMilestones_fields [simp]:
  "players (foodMilestones now p s) = players s"
  "food (gameState (foodMilestones now p s)) = food (gameState s)"
  "filter (\<lambda>(w', m). isFoodEaten m) (outbox (foodMilestones now p s))
     = filter (\<lambda>(w', m). isFoodEaten m) (outbox s)"
  by (simp_all add: foodMilestones_def Let_def)

lemma notifyFoodEaten_fields [simp]:
  "players (notifyFoodEaten p s) = players s"
  "gameState (notifyFoodEaten p s) = gameState s"
  by (simp_all add: notifyFoodEaten_def split: option.splits)

lemma isFoodEaten_FoodEaten [simp]: "isFoodEaten (FoodEaten a b c)"
  by (simp add: isFoodEaten_def)

lemma eatFood_players:
  "players (eatFood now w i s) =
   players (upd_player w (\<lambda>p. p\<lparr>score := score p + FOOD_SCORE_VALUE,
                                  growth := growth p + FOOD_SEGMENTS_GROWTH\<rparr>) s)"
  by (simp add: eatFood_def Let_def mathRandom_def split: option.splits)

lemma eatFood_food:
  "food (gameState (eatFood now w i s)) =
   take i (food (gameState s)) @ drop (Suc i) (food (gameState s))
   @ [\<lparr>px = rng s (rngIdx s) * MAP_WIDTH, py = rng s (rngIdx s + 1) * MAP_HEIGHT\<rparr>]"
  by (simp add: eatFood_def Let_def mathRandom_def split: option.splits)

lemma eatFood_notifies:
  assumes gp: "getPlayer s w = Some p"
    and ids: "distinct (map (\<lambda>(w', q). pid q) (players s))"
  shows "filter (\<lambda>(w', m). isFoodEaten m) (outbox (eatFood now w i s)) =
         filter (\<lambda>(w', m). isFoodEaten m) (outbox s)
         @ [(w, FoodEaten (score p + 1) (int (length (segments p)) + growth p + 2) ''grow'')]"
proof -
  let ?f = "\<lambda>p. p\<lparr>score := score p + FOOD_SCORE_VALUE, growth := growth p + FOOD_SEGMENTS_GROWTH\<rparr>"
  let ?s2 = "upd_player w ?f s"
  have g2: "getPlayer ?s2 w = Some (?f p)" using gp by (simp add: getPlayer_upd_player)
  have "distinct (map (\<lambda>(w', q). pid q) (players ?s2))"
    using ids by (simp add: pids_upd_player)
  then have fnd: "find (\<lambda>(w', q). pid q = pid p) (players ?s2) = Some (w, ?f p)"
    using find_by_pid [of "players ?s2" w "?f p"] g2 by (simp add: getPlayer_def)
  show ?thesis
    using g2 fnd
    by (simp add: eatFood_def Let_def mathRandom_def notifyFoodEaten_def)
qed

lemma foodStep_consumption:
  assumes gp: "getPlayer s w = Some p"
    and ids: "distinct (map (\<lambda>(w', q). pid q) (players s))"
    and i: "i < length (food (gameState s))"
    and near: "distance head (food (gameState s) ! i) < SEGMENT_RADIUS + FOOD_RADIUS"
  shows "food (gameState (foodStep now w head i s))
           = take i (food (gameState s)) @ drop (Suc i) (food (gameState s))
             @ [\<lparr>px = rng s (rngIdx s) * MAP_WIDTH, py = rng s (rngIdx s + 1) * MAP_HEIGHT\<rparr>]
       \<and> length (food (gameState (foodStep now w head i s))) = length (food (gameState s))
       \<and> getPlayer (foodStep now w head i s) w
           = Some (p\<lparr>score := score p + 1, growth := growth p + 2\<rparr>)
       \<and> (\<forall>w'. w' \<noteq> w \<longrightarrow> getPlayer (foodStep now w head i s) w' = getPlayer s w')
       \<and> filter (\<lambda>(w', m). isFoodEaten m) (outbox (foodStep now w head i s))
           = filter (\<lambda>(w', m). isFoodEaten m) (outbox s)
             @ [(w, FoodEaten (score p + 1) (int (length (segments p)) + growth p + 2) ''grow'')]"
proof -
  have e: "foodStep now w head i s = eatFood now w i s"
    using near by (simp add: foodStep_def)
  have g: "getPlayer (eatFood now w i s) w' =
           getPlayer (upd_player w (\<lambda>p. p\<lparr>score := score p + FOOD_SCORE_VALUE,
                                          growth := growth p + FOOD_SEGMENTS_GROWTH\<rparr>) s) w'" for w'
    by (simp add: getPlayer_cong [OF eatFood_players])
  show ?thesis
    unfolding e using i gp
    by (simp add: eatFood_food eatFood_notifies [OF gp ids] g getPlayer_upd_player)
qed

section \<open>Frames of the round functions\<close>

lemma quiet_upd_player [simp]: "quiet s (upd_player w f s)"
  by (simp add: quiet_def)

lemma quiet_broadcastAnnouncement [simp]: "quiet s (broadcastAnnouncement now msg ty dur s)"
  by (simp add: quiet_def)

lemma isGameOverMsg_simps [simp]:
  "isGameOverMsg (GameOverMsg a b c d e)"
  "\<not> isGameOverMsg (FoodEaten x y z)"
  "\<not> isGameOverMsg (PlayerStates v1 v2 v3 v4)"
  "\<not> isGameOverMsg (NewRound n1 n2 n3 n4)"
  "\<not> isGameOverMsg (WaitingForPlayersMsg u1 u2)"
  "\<not> isGameOverMsg (LastAlive l1 l2)"
  "\<not> isGameOverMsg (AllDead d1 d2 d3)"
  "\<not> isGameOverMsg (Connected c1 c2 c3 c4 c5)"
  "\<not> isGameOverMsg (ErrorMsg e1)"
  by (simp_all add: isGameOverMsg_def)

lemma foodMilestones_quiet: "quiet s (foodMilestones now p s)"
  by (simp add: quiet_def foodMilestones_def Let_def)

lemma notifyFoodEaten_quiet: "quiet s (notifyFoodEaten p s)"
  by (simp add: quiet_def notifyFoodEaten_def split: option.splits)

lemma gameOverSent_updates [simp]:
  "gameOverSent (s\<lparr>rngIdx := k\<rparr>) = gameOverSent s"
  "gameOverSent (s\<lparr>recentAnnouncements := ra\<rparr>) = gameOverSent s"
  "gameOverSent (s\<lparr>players := ps\<rparr>) = gameOverSent s"
  "gameOverSent (s\<lparr>timers := ts\<rparr>) = gameOverSent s"
  "gameOverSent (s\<lparr>gameState := g\<rparr>) = gameOverSent s"
  by (simp_all add: gameOverSent_def)

lemma eatFood_quiet: "quiet s (eatFood now w i s)"
proof -
  define s5 where "s5 =
    (let s1 = upd_gs (\<lambda>g. g\<lparr>food := take i (food g) @ drop (Suc i) (food g)\<rparr>) s;
         s2 = upd_player w (\<lambda>p. p\<lparr>score := score p + FOOD_SCORE_VALUE,
                                    growth := growth p + FOOD_SEGMENTS_GROWTH\<rparr>) s1;
         (rx, s3) = mathRandom s2;
         (ry, s4) = mathRandom s3
     in upd_gs (\<lambda>g. g\<lparr>food := food g @ [\<lparr>px = rx * MAP_WIDTH, py = ry * MAP_HEIGHT\<rparr>]\<rparr>) s4)"
  have q5: "quiet s s5" by (simp add: quiet_def s5_def Let_def mathRandom_def)
  have e: "eatFood now w i s =
           (case getPlayer s5 w of None \<Rightarrow> s5
            | Some p \<Rightarrow> notifyFoodEaten p (foodMilestones now p s5))"
    by (simp only: eatFood_def s5_def Let_def split_def)
  have a: "quiet s (notifyFoodEaten p (foodMilestones now p s5))" for p
    using quiet_trans [OF q5 quiet_trans [OF foodMilestones_quiet notifyFoodEaten_quiet]] .
  show ?thesis unfolding e using q5 a by (simp split: option.splits)
qed

lemma foodLoop_quiet: "quiet s (foodLoop now w h n s)"
proof (induction n arbitrary: s)
  case 0
  show ?case by simp
next
  case (Suc n)
  have "quiet s (foodStep now w h n s)" by (simp add: foodStep_def eatFood_quiet)
  from quiet_trans [OF this Suc] show ?case by simp
qed

lemma checkFoodCollisions_quiet: "quiet s (checkFoodCollisions now w s)"
  by (simp add: checkFoodCollisions_def foodLoop_quiet split: option.splits list.splits)

lemma eatFood_skeleton: "skeleton (eatFood now w i s) = skeleton s"
  by (simp add: skeleton_cong [OF eatFood_players] skeleton_upd_player)

lemma foodLoop_skeleton: "skeleton (foodLoop now w h n s) = skeleton s"
  by (induction n arbitrary: s) (simp_all add: foodStep_def eatFood_skeleton)

lemma checkFoodCollisions_skeleton: "skeleton (checkFoodCollisions now w s) = skeleton s"
  by (simp add: checkFoodCollisions_def foodLoop_skeleton split: option.splits list.splits)

lemma checkCollisions_skeleton: "skeleton (checkCollisions now w s) = skeleton s"
  by (simp add: checkCollisions_def collisionLoop_skeleton)

subsection \<open>The snapshot broadcast\<close>

lemma broadcastPlayerStates_fields [simp]:
  "players (broadcastPlayerStates now s) = players s"
  "gameOverSent (broadcastPlayerStates now s) = gameOverSent s"
  "rng (broadcastPlayerStates now s) = rng s"
  "rngIdx (broadcastPlayerStates now s) = rngIdx s"
  by (simp_all add: broadcastPlayerStates_def Let_def)

lemma broadcastPlayerStates_gameState:
  "gameState (broadcastPlayerStates now s) =
     (if players s = [] then gameState s else (gameState s)\<lparr>serverTime := now\<rparr>)"
  by (simp add: broadcastPlayerStates_def Let_def)

lemma broadcastPlayerStates_flags [simp]:
  "isActive (gameState (broadcastPlayerStates now s)) = isActive (gameState s)"
  "waitingForPlayers (gameState (broadcastPlayerStates now s)) = waitingForPlayers (gameState s)"
  "gameOver (gameState (broadcastPlayerStates now s)) = gameOver (gameState s)"
  "roundNumber (gameState (broadcastPlayerStates now s)) = roundNumber (gameState s)"
  "food (gameState (broadcastPlayerStates now s)) = food (gameState s)"
  by (simp_all add: broadcastPlayerStates_gameState)

lemma broadcastPlayerStates_timers:
  "timers (broadcastPlayerStates now s) =
     (if players s \<noteq> [] \<and> filter (\<lambda>(w, p). alive p) (players s) = [] \<and> isActive (gameState s)
      then timers s @ [(now + 100, TCheckGameStatus)] else timers s)"
  by (auto simp: broadcastPlayerStates_def Let_def)

lemma getPlayer_broadcastPlayerStates [simp]:
  "getPlayer (broadcastPlayerStates now s) = getPlayer s"
  by (simp add: getPlayer_def fun_eq_iff)

lemma rc_basic [simp]:
  "rc (upd_player w f s) = rc s"
  "rc (send w m s) = rc s"
  "rc (broadcast m s) = rc s"
  "rc (addTimer d t s) = rc s"
  "rc (broadcastAnnouncement now msg ty dur s) = rc s"
  "rc (broadcastPlayerStates now s) = rc s"
  by (simp_all add: rc_def)

subsection \<open>Spawning\<close>

lemma spawnPosition_snd: "snd (spawnPosition s) = s\<lparr>rngIdx := rngIdx s + 2\<rparr>"
  by (simp add: spawnPosition_def mathRandom_def Let_def)

lemma spawnPosition_fst:
  "fst (spawnPosition s) = \<lparr>px = 800 + rng s (rngIdx s) * 800, py = 600 + rng s (rngIdx s + 1) * 600\<rparr>"
  by (simp add: spawnPosition_def mathRandom_def Let_def)

lemma generateFood_snd: "snd (generateFood n s) = s\<lparr>rngIdx := rngIdx s + 2 * n\<rparr>"
  by (induction n arbitrary: s) (simp_all add: mathRandom_def split_def Let_def)

lemma generateFood_length: "length (fst (generateFood n s)) = n"
  by (induction n arbitrary: s) (simp_all add: mathRandom_def split_def Let_def)

lemma resetAllPlayers_snd: "\<exists>k. snd (resetAllPlayers now ps s) = s\<lparr>rngIdx := k\<rparr>"
proof (induction ps arbitrary: s)
  case Nil
  show ?case by (simp, rule exI [where x = "rngIdx s"], simp)
next
  case (Cons a ps)
  obtain w p where a: "a = (w, p)" by (cases a)
  from Cons [of "s\<lparr>rngIdx := rngIdx s + 2\<rparr>"]
  show ?case by (auto simp: a split_def Let_def spawnPosition_snd)
qed

lemma respawnDeadPlayers_snd: "\<exists>k. snd (respawnDeadPlayers now ps s) = s\<lparr>rngIdx := k\<rparr>"
proof (induction ps arbitrary: s)
  case Nil
  show ?case by (simp, rule exI [where x = "rngIdx s"], simp)
next
  case (Cons a ps)
  obtain w p where a: "a = (w, p)" by (cases a)
  from Cons [of "s\<lparr>rngIdx := rngIdx s + 2\<rparr>"] Cons [of s]
  show ?case by (auto simp: a split_def Let_def spawnPosition_snd)
qed

lemma resetAllPlayers_keys: "map fst (fst (resetAllPlayers now ps s)) = map fst ps"
  by (induction ps arbitrary: s) (auto simp: split_def Let_def)

lemma respawnDeadPlayers_keys: "map fst (fst (respawnDeadPlayers now ps s)) = map fst ps"
  by (induction ps arbitrary: s) (auto simp: split_def Let_def)

lemma resetAllPlayers_alive: "list_all (\<lambda>(w, p). alive p) (fst (resetAllPlayers now ps s))"
  by (induction ps arbitrary: s) (auto simp: split_def Let_def)

lemma respawnDeadPlayers_alive: "list_all (\<lambda>(w, p). alive p) (fst (respawnDeadPlayers now ps s))"
  by (induction ps arbitrary: s) (auto simp: split_def Let_def)

lemma resetAllPlayers_segs_ok: "segs_ok (fst (resetAllPlayers now ps s))"
  by (induction ps arbitrary: s) (auto simp: split_def Let_def segs_ok_def)

lemma respawnDeadPlayers_segs_ok: "segs_ok ps \<Longrightarrow> segs_ok (fst (respawnDeadPlayers now ps s))"
  by (induction ps arbitrary: s) (auto simp: split_def Let_def segs_ok_def)

subsection \<open>Starting a round\<close>

lemma respawnDeadPlayers_rel:
  "list_all2 (respawned now (rng s)) ps (fst (respawnDeadPlayers now ps s))"
proof (induction ps arbitrary: s)
  case Nil
  show ?case by simp
next
  case (Cons a ps)
  obtain w p where a: "a = (w, p)" by (cases a)
  have r: "rng (s\<lparr>rngIdx := k\<rparr>) = rng s" for k by simp
  from Cons [of "s\<lparr>rngIdx := rngIdx s + 2\<rparr>"] Cons [of s]
  show ?case
    by (auto simp: a split_def Let_def respawned_def spawnPosition_snd spawnPosition_fst
        intro: exI [where x = "rngIdx s"])
qed

lemma startNewRound_small:
  "length (players s) < MIN_PLAYERS_TO_START \<Longrightarrow>
   startNewRound now s =
     broadcastAnnouncement now ''Waiting for players...'' Info 2000
       (broadcast (WaitingForPlayersMsg (playersNeeded s) (serverTime (gameState s)))
          (upd_gs (\<lambda>g. g\<lparr>waitingForPlayers := True, isActive := False, roundEndTime := None\<rparr>) s))"
  by (simp add: startNewRound_def Let_def playersNeeded_def)

lemma startNewRound_respawn_shape:
  assumes "\<not> length (players s) < MIN_PLAYERS_TO_START" and "\<not> gameOver (gameState s)"
  shows "\<exists>k m a. startNewRound now s =
     broadcastPlayerStates now
       (broadcastAnnouncement now a Success 2000
          (broadcast m
             (s\<lparr>gameState := (gameState s)\<lparr>isActive := True, winner := None, roundEndTime := None\<rparr>,
                rngIdx := k,
                players := fst (respawnDeadPlayers now (players s)
                                 (upd_gs (\<lambda>g. g\<lparr>isActive := True, winner := None,
                                                 roundEndTime := None\<rparr>) s))\<rparr>)))
     \<and> \<not> isGameOverMsg m"
proof -
  let ?s1 = "upd_gs (\<lambda>g. g\<lparr>isActive := True, winner := None, roundEndTime := None\<rparr>) s"
  obtain k where k: "snd (respawnDeadPlayers now (players s) ?s1) = ?s1\<lparr>rngIdx := k\<rparr>"
    using respawnDeadPlayers_snd by blast
  have "startNewRound now s =
     broadcastPlayerStates now
       (broadcastAnnouncement now
          (''Round '' @ string_of_int (roundNumber (gameState s)) @ '' started!'') Success 2000
          (broadcast (NewRound (roundNumber (gameState s)) (serverTime (gameState s)) True
                        (recentAnnouncements s))
             (s\<lparr>gameState := (gameState s)\<lparr>isActive := True, winner := None, roundEndTime := None\<rparr>,
                rngIdx := k,
                players := fst (respawnDeadPlayers now (players s) ?s1)\<rparr>)))"
    using assms k
    by (simp add: startNewRound_def Let_def split_def upd_gs_def)
  then show ?thesis by (intro exI conjI) (assumption, simp)
qed

lemma startNewRound_reset_shape:
  assumes "\<not> length (players s) < MIN_PLAYERS_TO_START" and "gameOver (gameState s)"
  shows "\<exists>k m a F X. startNewRound now s =
     broadcastPlayerStates now
       (broadcastAnnouncement now a Success 2000
          (broadcast m
             (s\<lparr>gameState := (gameState s)\<lparr>isActive := True, winner := None, roundEndTime := None,
                                             roundNumber := roundNumber (gameState s) + 1,
                                             gameOver := False, food := F\<rparr>,
                rngIdx := k,
                players := fst (resetAllPlayers now (players s) X)\<rparr>)))
     \<and> \<not> isGameOverMsg m \<and> length F = FOOD_COUNT"
proof -
  let ?sa = "upd_gs (\<lambda>g. g\<lparr>roundNumber := roundNumber g + 1, gameOver := False\<rparr>)
               (upd_gs (\<lambda>g. g\<lparr>isActive := True, winner := None, roundEndTime := None\<rparr>) s)"
  let ?F = "fst (generateFood FOOD_COUNT ?sa)"
  let ?sc = "upd_gs (\<lambda>g. g\<lparr>food := ?F\<rparr>) (?sa\<lparr>rngIdx := rngIdx ?sa + 2 * FOOD_COUNT\<rparr>)"
  obtain k where k: "snd (resetAllPlayers now (players s) ?sc) = ?sc\<lparr>rngIdx := k\<rparr>"
    using resetAllPlayers_snd by blast
  have l: "length ?F = FOOD_COUNT" by (rule generateFood_length)
  have "startNewRound now s =
     broadcastPlayerStates now
       (broadcastAnnouncement now
          (''Round '' @ string_of_int (roundNumber (gameState s) + 1) @ '' started!'') Success 2000
          (broadcast (NewRound (roundNumber (gameState s) + 1) (serverTime (gameState s)) True
                        (recentAnnouncements s))
             (s\<lparr>gameState := (gameState s)\<lparr>isActive := True, winner := None, roundEndTime := None,
                                             roundNumber := roundNumber (gameState s) + 1,
                                             gameOver := False, food := ?F\<rparr>,
                rngIdx := k,
                players := fst (resetAllPlayers now (players s) ?sc)\<rparr>)))"
    using assms k
    by (simp add: startNewRound_def Let_def split_def generateFood_snd upd_gs_def)
  with l show ?thesis by (intro exI conjI) (assumption, simp_all)
qed


lemma startNewRound_players_small:
  "length (players s) < MIN_PLAYERS_TO_START \<Longrightarrow> players (startNewRound now s) = players s"
  by (simp add: startNewRound_small)

lemma startNewRound_players_respawn:
  assumes "\<not> length (players s) < MIN_PLAYERS_TO_START" and "\<not> gameOver (gameState s)"
  shows "list_all2 (respawned now (rng s)) (players s) (players (startNewRound now s))"
proof -
  from startNewRound_respawn_shape [OF assms, of now] obtain k m a where
    "startNewRound now s =
     broadcastPlayerStates now
       (broadcastAnnouncement now a Success 2000
          (broadcast m
             (s\<lparr>gameState := (gameState s)\<lparr>isActive := True, winner := None, roundEndTime := None\<rparr>,
                rngIdx := k,
                players := fst (respawnDeadPlayers now (players s)
                                 (upd_gs (\<lambda>g. g\<lparr>isActive := True, winner := None,
                                                 roundEndTime := None\<rparr>) s))\<rparr>)))"
    by blast
  then show ?thesis
    using respawnDeadPlayers_rel
            [of now "upd_gs (\<lambda>g. g\<lparr>isActive := True, winner := None, roundEndTime := None\<rparr>) s"
               "players s"]
    by simp
qed

lemma respawned_props:
  assumes "list_all2 (respawned now r) ps qs"
  shows "map fst qs = map fst ps" and "list_all (\<lambda>(w, p). alive p) qs"
    and "segs_ok ps \<Longrightarrow> segs_ok qs"
  using assms
  by (induction ps qs rule: list_all2_induct)
     (auto simp: respawned_def segs_ok_def split: if_splits)

lemma startNewRound_keys: "map fst (players (startNewRound now s)) = map fst (players s)"
proof (cases "length (players s) < MIN_PLAYERS_TO_START")
  case True
  then show ?thesis by (simp add: startNewRound_players_small)
next
  case False
  show ?thesis
  proof (cases "gameOver (gameState s)")
    case True
    from startNewRound_reset_shape [OF False True, of now] show ?thesis
      by (auto simp: resetAllPlayers_keys)
  next
    case g: False
    from respawned_props(1) [OF startNewRound_players_respawn [OF False g]] show ?thesis .
  qed
qed

lemma startNewRound_length [simp]: "length (players (startNewRound now s)) = length (players s)"
  using arg_cong [OF startNewRound_keys, of length] by simp

lemma startNewRound_alive:
  "\<not> length (players s) < MIN_PLAYERS_TO_START \<Longrightarrow>
   list_all (\<lambda>(w, p). alive p) (players (startNewRound now s))"
proof -
  assume n: "\<not> length (players s) < MIN_PLAYERS_TO_START"
  show ?thesis
  proof (cases "gameOver (gameState s)")
    case True
    from startNewRound_reset_shape [OF n True, of now] show ?thesis
      by (auto simp: resetAllPlayers_alive)
  next
    case g: False
    from respawned_props(2) [OF startNewRound_players_respawn [OF n g]] show ?thesis .
  qed
qed

lemma startNewRound_segs_ok:
  "segs_ok (players s) \<Longrightarrow> segs_ok (players (startNewRound now s))"
proof (cases "length (players s) < MIN_PLAYERS_TO_START")
  case True
  then show "segs_ok (players s) \<Longrightarrow> ?thesis" by (simp add: startNewRound_players_small)
next
  case False
  assume ok: "segs_ok (players s)"
  show ?thesis
  proof (cases "gameOver (gameState s)")
    case True
    from startNewRound_reset_shape [OF False True, of now] show ?thesis
      by (auto simp: resetAllPlayers_segs_ok)
  next
    case g: False
    from respawned_props(3) [OF startNewRound_players_respawn [OF False g] ok] show ?thesis .
  qed
qed

lemma startNewRound_flags:
  "isActive (gameState (startNewRound now s)) = (\<not> length (players s) < MIN_PLAYERS_TO_START)"
  "waitingForPlayers (gameState (startNewRound now s)) =
     (length (players s) < MIN_PLAYERS_TO_START \<or> waitingForPlayers (gameState s))"
  "gameOver (gameState (startNewRound now s)) =
     (length (players s) < MIN_PLAYERS_TO_START \<and> gameOver (gameState s))"
  "roundNumber (gameState (startNewRound now s)) =
     (if \<not> length (players s) < MIN_PLAYERS_TO_START \<and> gameOver (gameState s)
      then roundNumber (gameState s) + 1 else roundNumber (gameState s))"
proof -
  consider (small) "length (players s) < MIN_PLAYERS_TO_START"
    | (reset) "\<not> length (players s) < MIN_PLAYERS_TO_START" "gameOver (gameState s)"
    | (respawn) "\<not> length (players s) < MIN_PLAYERS_TO_START" "\<not> gameOver (gameState s)"
    by blast
  then have "isActive (gameState (startNewRound now s)) = (\<not> length (players s) < MIN_PLAYERS_TO_START)
    \<and> waitingForPlayers (gameState (startNewRound now s)) =
     (length (players s) < MIN_PLAYERS_TO_START \<or> waitingForPlayers (gameState s))
    \<and> gameOver (gameState (startNewRound now s)) =
     (length (players s) < MIN_PLAYERS_TO_START \<and> gameOver (gameState s))
    \<and> roundNumber (gameState (startNewRound now s)) =
     (if \<not> length (players s) < MIN_PLAYERS_TO_START \<and> gameOver (gameState s)
      then roundNumber (gameState s) + 1 else roundNumber (gameState s))"
  proof cases
    case small
    then show ?thesis by (simp add: startNewRound_small)
  next
    case reset
    from startNewRound_reset_shape [OF reset, of now] reset show ?thesis by auto
  next
    case respawn
    from startNewRound_respawn_shape [OF respawn, of now] respawn show ?thesis by auto
  qed
  then show
    "isActive (gameState (startNewRound now s)) = (\<not> length (players s) < MIN_PLAYERS_TO_START)"
    "waitingForPlayers (gameState (startNewRound now s)) =
       (length (players s) < MIN_PLAYERS_TO_START \<or> waitingForPlayers (gameState s))"
    "gameOver (gameState (startNewRound now s)) =
       (length (players s) < MIN_PLAYERS_TO_START \<and> gameOver (gameState s))"
    "roundNumber (gameState (startNewRound now s)) =
       (if \<not> length (players s) < MIN_PLAYERS_TO_START \<and> gameOver (gameState s)
        then roundNumber (gameState s) + 1 else roundNumber (gameState s))"
    by blast+
qed

lemma startNewRound_gameOverSent [simp]: "gameOverSent (startNewRound now s) = gameOverSent s"
proof -
  consider (small) "length (players s) < MIN_PLAYERS_TO_START"
    | (reset) "\<not> length (players s) < MIN_PLAYERS_TO_START" "gameOver (gameState s)"
    | (respawn) "\<not> length (players s) < MIN_PLAYERS_TO_START" "\<not> gameOver (gameState s)"
    by blast
  then show ?thesis
  proof cases
    case small
    then show ?thesis by (simp add: startNewRound_small)
  next
    case reset
    from startNewRound_reset_shape [OF reset, of now] show ?thesis by auto
  next
    case respawn
    from startNewRound_respawn_shape [OF respawn, of now] show ?thesis by auto
  qed
qed

lemma startNewRound_timers [simp]: "timers (startNewRound now s) = timers s"
proof (cases "length (players s) < MIN_PLAYERS_TO_START")
  case True
  then show ?thesis by (simp add: startNewRound_small)
next
  case False
  have al: "list_all (\<lambda>(w, p). alive p) (players (startNewRound now s))"
    using False by (rule startNewRound_alive)
  have ne: "players (startNewRound now s) \<noteq> []"
  proof
    assume "players (startNewRound now s) = []"
    then have "length (players (startNewRound now s)) = 0" by (simp only: list.size)
    then have "length (players s) = 0" by (simp only: startNewRound_length)
    with False show False by simp
  qed
  from al ne have nf: "filter (\<lambda>(w, p). alive p) (players (startNewRound now s)) \<noteq> []"
    by (cases "players (startNewRound now s)") auto
  show ?thesis
  proof (cases "gameOver (gameState s)")
    case True
    from startNewRound_reset_shape [OF False True, of now] obtain s2 where
      e: "startNewRound now s = broadcastPlayerStates now s2" and t: "timers s2 = timers s"
      by (auto simp del: broadcastPlayerStates_fields)
    from nf have "filter (\<lambda>(w, p). alive p) (players s2) \<noteq> []" by (simp add: e)
    then show ?thesis by (simp add: e t broadcastPlayerStates_timers)
  next
    case g: False
    from startNewRound_respawn_shape [OF False g, of now] obtain s2 where
      e: "startNewRound now s = broadcastPlayerStates now s2" and t: "timers s2 = timers s"
      by (auto simp del: broadcastPlayerStates_fields)
    from nf have "filter (\<lambda>(w, p). alive p) (players s2) \<noteq> []" by (simp add: e)
    then show ?thesis by (simp add: e t broadcastPlayerStates_timers)
  qed
qed

lemma rc_startNewRound:
  "rc (startNewRound now s) =
     (if length (players s) < MIN_PLAYERS_TO_START
      then (roundNumber (gameState s), gameOver (gameState s), True, length (players s))
      else (if gameOver (gameState s) then roundNumber (gameState s) + 1
            else roundNumber (gameState s),
            False, waitingForPlayers (gameState s), length (players s)))"
  by (simp add: rc_def startNewRound_flags)

subsection \<open>Round status\<close>

lemma declareGameOver_fields [simp]:
  "players (declareGameOver now p s) = players s"
  "timers (declareGameOver now p s) = timers s @ [(now + 5000, TGameOverReset)]"
  "gameOverSent (declareGameOver now p s) = gameOverSent s + length (players s)"
  "isActive (gameState (declareGameOver now p s)) = False"
  "waitingForPlayers (gameState (declareGameOver now p s)) = waitingForPlayers (gameState s)"
  "gameOver (gameState (declareGameOver now p s)) = gameOver (gameState s)"
  "roundNumber (gameState (declareGameOver now p s)) = roundNumber (gameState s)"
  by (simp_all add: declareGameOver_def Let_def)

lemma checkAlivePlayers_fields [simp]:
  "players (checkAlivePlayers now s) = players s"
  "gameOverSent (checkAlivePlayers now s) = gameOverSent s"
  "waitingForPlayers (gameState (checkAlivePlayers now s)) = waitingForPlayers (gameState s)"
  "gameOver (gameState (checkAlivePlayers now s)) = gameOver (gameState s)"
  "roundNumber (gameState (checkAlivePlayers now s)) = roundNumber (gameState s)"
  by (simp_all add: checkAlivePlayers_def Let_def split: list.splits)

lemma checkAlivePlayers_idle:
  "length (filter (\<lambda>(w, p). alive p) (players s)) \<ge> 2 \<Longrightarrow> checkAlivePlayers now s = s"
proof -
  assume "length (filter (\<lambda>(w, p). alive p) (players s)) \<ge> 2"
  then have "length (filter (\<lambda>(w, p). alive p) (players s)) \<noteq> 1"
    and "filter (\<lambda>(w, p). alive p) (players s) \<noteq> []" by auto
  then show ?thesis by (simp add: checkAlivePlayers_def Let_def)
qed

lemma checkAlivePlayers_last:
  assumes "filter (\<lambda>(w, p). alive p) (players s) = [(w, p)]" and "length (players s) > 1"
  shows "timers (checkAlivePlayers now s) = timers s @ [(now + 3000, TStartNewRound)]"
    and "isActive (gameState (checkAlivePlayers now s)) = isActive (gameState s)"
  using assms by (simp_all add: checkAlivePlayers_def Let_def)

lemma rc_round_status [simp]:
  "rc (declareGameOver now p s) = rc s"
  "rc (checkAlivePlayers now s) = rc s"
  by (simp_all add: rc_def)

lemma checkGameStatus_running:
  "isActive (gameState s) \<Longrightarrow> \<not> waitingForPlayers (gameState s) \<Longrightarrow>
   checkGameStatus now s =
     (case find (\<lambda>(w, p). kills p \<ge> WINNING_KILLS) (players s) of
        Some (winnerWs, winnerPlayer) \<Rightarrow> declareGameOver now winnerPlayer s
      | None \<Rightarrow> checkAlivePlayers now s)"
  by (simp add: checkGameStatus_def)

lemma checkGameStatus_players:
  "players (checkGameStatus now s) = players s
   \<or> players (checkGameStatus now s) = players (startNewRound now s)"
  by (simp add: checkGameStatus_def Let_def split: option.splits prod.splits)

lemma checkGameStatus_keys [simp]:
  "map fst (players (checkGameStatus now s)) = map fst (players s)"
  using checkGameStatus_players [of now s] by (auto simp: startNewRound_keys)

lemma checkGameStatus_segs_ok:
  "segs_ok (players s) \<Longrightarrow> segs_ok (players (checkGameStatus now s))"
  using checkGameStatus_players [of now s] by (auto simp: startNewRound_segs_ok)

lemma rc_checkGameStatus:
  "rc (checkGameStatus now s) =
     (if \<not> (isActive (gameState s) \<and> \<not> waitingForPlayers (gameState s))
         \<and> length (players s) < MIN_PLAYERS_TO_START
      then (roundNumber (gameState s), gameOver (gameState s), True, length (players s))
      else if waitingForPlayers (gameState s) \<and> length (players s) \<ge> MIN_PLAYERS_TO_START
      then rc (startNewRound now s)
      else rc s)"
  by (simp add: checkGameStatus_def Let_def rc_def split: option.splits prod.splits)

lemma gameOverReset_flags:
  "isActive (gameState (gameOverReset now s)) = (\<not> length (players s) < MIN_PLAYERS_TO_START)"
  "waitingForPlayers (gameState (gameOverReset now s))"
  "gameOver (gameState (gameOverReset now s)) = (length (players s) < MIN_PLAYERS_TO_START)"
  "roundNumber (gameState (gameOverReset now s)) =
     (if \<not> length (players s) < MIN_PLAYERS_TO_START
      then roundNumber (gameState s) + 1 else roundNumber (gameState s))"
  by (simp_all add: gameOverReset_def Let_def startNewRound_flags)

lemma gameOverReset_keys [simp]:
  "map fst (players (gameOverReset now s)) = map fst (players s)"
  by (simp add: gameOverReset_def Let_def startNewRound_keys comp_def split_def)

lemma gameOverReset_segs_ok:
  "segs_ok (players s) \<Longrightarrow> segs_ok (players (gameOverReset now s))"
proof -
  assume "segs_ok (players s)"
  then have "segs_ok (map (\<lambda>(w, p). (w, p\<lparr>kills := 0, score := 0\<rparr>)) (players s))"
    by (induction "players s" arbitrary: s) (auto simp: segs_ok_def list_all_iff)
  then show ?thesis by (simp add: gameOverReset_def Let_def startNewRound_segs_ok)
qed

section \<open>Invariants of the event loop\<close>

lemma segs_ok_skeleton: "skeleton s' = skeleton s \<Longrightarrow> segs_ok (players s') = segs_ok (players s)"
proof -
  have "segs_ok (players t) = list_all (\<lambda>(w, i, g). length g \<ge> 1) (skeleton t)" for t
    by (simp add: segs_ok_def skeleton_def list_all_iff split_def)
  then show "skeleton s' = skeleton s \<Longrightarrow> ?thesis" by simp
qed

lemma segs_ok_upd_player:
  "(\<And>p. length (segments p) \<ge> 1 \<Longrightarrow> length (segments (f p)) \<ge> 1) \<Longrightarrow>
   segs_ok (players s) \<Longrightarrow> segs_ok (players (upd_player w f s))"
  by (auto simp: segs_ok_def upd_player_def list_all_iff split: if_splits)

lemma updateSnakeSegments_nonempty:
  "length (segments p) \<ge> 1 \<Longrightarrow> length (segments (updateSnakeSegments p)) \<ge> 1"
  by (simp add: updateSnakeSegments_segments followLoop_length applyGrowth_def)

lemma segs_ok_filter: "segs_ok ps \<Longrightarrow> segs_ok (filter P ps)"
  by (simp add: segs_ok_def list_all_iff)

lemma segs_ok_mapSet:
  "segs_ok ps \<Longrightarrow> length (segments p) \<ge> 1 \<Longrightarrow> segs_ok (mapSet w p ps)"
  by (induction ps) (auto simp: segs_ok_def)

lemma gpo_rc: "rc s' = rc s \<Longrightarrow> gameOver_pending_ok s' = gameOver_pending_ok s"
  by (simp add: rc_def gameOver_pending_ok_def)

lemma rn_rc: "rc s' = rc s \<Longrightarrow> roundNumber (gameState s') = roundNumber (gameState s)"
  by (simp add: rc_def)

lemma gpo_startNewRound [simp]: "gameOver_pending_ok (startNewRound now s)"
  by (simp add: gameOver_pending_ok_def startNewRound_flags)

lemma rn_startNewRound: "roundNumber (gameState s) \<le> roundNumber (gameState (startNewRound now s))"
  by (simp add: startNewRound_flags)

lemma gpo_checkGameStatus:
  "gameOver_pending_ok s \<Longrightarrow> gameOver_pending_ok (checkGameStatus now s)"
  using rc_checkGameStatus [of now s] gpo_startNewRound [of now s]
  by (auto simp: gameOver_pending_ok_def rc_def split: if_splits)

lemma rn_checkGameStatus:
  "roundNumber (gameState s) \<le> roundNumber (gameState (checkGameStatus now s))"
  using rc_checkGameStatus [of now s] rn_startNewRound [of s now]
  by (auto simp: rc_def split: if_splits)

lemma gpo_gameOverReset [simp]: "gameOver_pending_ok (gameOverReset now s)"
  by (simp add: gameOverReset_def Let_def)

lemma rn_gameOverReset: "roundNumber (gameState s) \<le> roundNumber (gameState (gameOverReset now s))"
  by (simp add: gameOverReset_flags)

text \<open>The part of a movement before the round status is checked.\<close>

lemma movement_prefix_quiet:
  "quiet s (checkCollisions now w (checkFoodCollisions now w
     (upd_player w f4 (case rot of Some r \<Rightarrow> upd_player w (f3 r) (upd_player w f2 (upd_player w f1 s))
                              | None \<Rightarrow> upd_player w f2 (upd_player w f1 s)))))"
proof -
  let ?s3 = "case rot of Some r \<Rightarrow> upd_player w (f3 r) (upd_player w f2 (upd_player w f1 s))
             | None \<Rightarrow> upd_player w f2 (upd_player w f1 s)"
  have "quiet s ?s3" by (cases rot) (simp_all add: quiet_def)
  then have "quiet s (upd_player w f4 ?s3)" by (simp add: quiet_def)
  from quiet_trans [OF quiet_trans [OF this checkFoodCollisions_quiet] checkCollisions_quiet]
  show ?thesis .
qed

lemma handleMovement_eq:
  "handleMovement w hp rot now s =
   broadcastPlayerStates now (checkGameStatus now
     (checkCollisions now w (checkFoodCollisions now w
       (upd_player w updateSnakeSegments
         (case rot of
            Some r \<Rightarrow> upd_player w (\<lambda>p. p\<lparr>rotation := r\<rparr>)
                        (upd_player w (\<lambda>p. if length (segments p) > 0
                                            then p\<lparr>segments := (segments p)[0 := hp]\<rparr> else p)
                           (upd_player w (\<lambda>p. p\<lparr>lastUpdate := now\<rparr>) s))
          | None \<Rightarrow> upd_player w (\<lambda>p. if length (segments p) > 0
                                        then p\<lparr>segments := (segments p)[0 := hp]\<rparr> else p)
                      (upd_player w (\<lambda>p. p\<lparr>lastUpdate := now\<rparr>) s))))))"
  unfolding handleMovement_def Let_def ..

lemma handleMovement_segs_ok:
  "segs_ok (players s) \<Longrightarrow> segs_ok (players (handleMovement w hp rot now s))"
proof -
  assume ok: "segs_ok (players s)"
  let ?s2 = "upd_player w (\<lambda>p. if length (segments p) > 0
                                 then p\<lparr>segments := (segments p)[0 := hp]\<rparr> else p)
               (upd_player w (\<lambda>p. p\<lparr>lastUpdate := now\<rparr>) s)"
  let ?s3 = "case rot of Some r \<Rightarrow> upd_player w (\<lambda>p. p\<lparr>rotation := r\<rparr>) ?s2 | None \<Rightarrow> ?s2"
  have "segs_ok (players (upd_player w (\<lambda>p. p\<lparr>lastUpdate := now\<rparr>) s))"
    using ok by (auto intro: segs_ok_upd_player)
  then have "segs_ok (players ?s2)" by (rule segs_ok_upd_player [rotated]) auto
  then have "segs_ok (players ?s3)" by (cases rot) (simp_all add: segs_ok_upd_player)
  then have "segs_ok (players (upd_player w updateSnakeSegments ?s3))"
    by (intro segs_ok_upd_player updateSnakeSegments_nonempty)
  then have "segs_ok (players (checkCollisions now w (checkFoodCollisions now w
               (upd_player w updateSnakeSegments ?s3))))"
    by (simp add: segs_ok_skeleton [OF checkCollisions_skeleton]
          segs_ok_skeleton [OF checkFoodCollisions_skeleton])
  then show ?thesis
    by (simp add: handleMovement_eq checkGameStatus_segs_ok)
qed

lemma handleMovement_round:
  "roundNumber (gameState s) \<le> roundNumber (gameState (handleMovement w hp rot now s))"
  "gameOver_pending_ok s \<Longrightarrow> gameOver_pending_ok (handleMovement w hp rot now s)"
proof -
  let ?s6 = "checkCollisions now w (checkFoodCollisions now w
       (upd_player w updateSnakeSegments
         (case rot of
            Some r \<Rightarrow> upd_player w (\<lambda>p. p\<lparr>rotation := r\<rparr>)
                        (upd_player w (\<lambda>p. if length (segments p) > 0
                                            then p\<lparr>segments := (segments p)[0 := hp]\<rparr> else p)
                           (upd_player w (\<lambda>p. p\<lparr>lastUpdate := now\<rparr>) s))
          | None \<Rightarrow> upd_player w (\<lambda>p. if length (segments p) > 0
                                        then p\<lparr>segments := (segments p)[0 := hp]\<rparr> else p)
                      (upd_player w (\<lambda>p. p\<lparr>lastUpdate := now\<rparr>) s))))"
  have q: "quiet s ?s6" by (rule movement_prefix_quiet)
  have r: "rc ?s6 = rc s" using q by (rule quiet_rc)
  have e: "handleMovement w hp rot now s = broadcastPlayerStates now (checkGameStatus now ?s6)"
    by (rule handleMovement_eq)
  have "roundNumber (gameState s) = roundNumber (gameState ?s6)" using rn_rc [OF r] by simp
  also have "\<dots> \<le> roundNumber (gameState (checkGameStatus now ?s6))" by (rule rn_checkGameStatus)
  finally show "roundNumber (gameState s) \<le> roundNumber (gameState (handleMovement w hp rot now s))"
    by (simp add: e)
  assume "gameOver_pending_ok s"
  then have "gameOver_pending_ok ?s6" using gpo_rc [OF r] by simp
  then have "gameOver_pending_ok (checkGameStatus now ?s6)" by (rule gpo_checkGameStatus)
  then show "gameOver_pending_ok (handleMovement w hp rot now s)"
    unfolding e by (simp add: gpo_rc [OF rc_basic(6)])
qed

lemma handleParsed_segs_ok:
  "segs_ok (players s) \<Longrightarrow> segs_ok (players (handleParsed w d now s))"
  by (auto simp: handleParsed_def Let_def startNewRound_segs_ok handleMovement_segs_ok
      split: option.splits)

lemma handleParsed_round:
  "roundNumber (gameState s) \<le> roundNumber (gameState (handleParsed w d now s))"
  "gameOver_pending_ok s \<Longrightarrow> gameOver_pending_ok (handleParsed w d now s)"
proof -
  have a: "roundNumber (gameState s) \<le> roundNumber (gameState (startNewRound now s'))"
    if "roundNumber (gameState s') = roundNumber (gameState s)" for s'
    using rn_startNewRound [of s' now] that by simp
  show "roundNumber (gameState s) \<le> roundNumber (gameState (handleParsed w d now s))"
    by (auto simp: handleParsed_def Let_def a handleMovement_round(1) split: option.splits)
  assume "gameOver_pending_ok s"
  then show "gameOver_pending_ok (handleParsed w d now s)"
    by (auto simp: handleParsed_def Let_def handleMovement_round(2) gpo_rc [OF rc_basic(2)]
        split: option.splits)
qed

lemma onMessage_segs_ok:
  "segs_ok (players s) \<Longrightarrow> segs_ok (players (onMessage w inb now s))"
  by (cases inb) (simp_all add: onMessage_def handleParsed_segs_ok)

lemma onMessage_round:
  "roundNumber (gameState s) \<le> roundNumber (gameState (onMessage w inb now s))"
  "gameOver_pending_ok s \<Longrightarrow> gameOver_pending_ok (onMessage w inb now s)"
  by (cases inb; simp add: onMessage_def handleParsed_round gpo_rc [OF rc_basic(2)])+

lemma spawnPosition_fields [simp]:
  "players (snd (spawnPosition s)) = players s"
  "gameState (snd (spawnPosition s)) = gameState s"
  by (simp_all add: spawnPosition_snd)

lemma onOpen_segs_ok: "segs_ok (players s) \<Longrightarrow> segs_ok (players (onOpen w i now s))"
  by (auto simp: onOpen_def Let_def split_def startNewRound_segs_ok segs_ok_mapSet segs_ok_filter
        newPlayer_def)

lemma onOpen_round:
  "roundNumber (gameState s) \<le> roundNumber (gameState (onOpen w i now s))"
  "gameOver_pending_ok s \<Longrightarrow> gameOver_pending_ok (onOpen w i now s)"
proof -
  have a: "roundNumber (gameState s) \<le> roundNumber (gameState (startNewRound now s'))"
    if "roundNumber (gameState s') = roundNumber (gameState s)" for s'
    using rn_startNewRound [of s' now] that by simp
  show "roundNumber (gameState s) \<le> roundNumber (gameState (onOpen w i now s))"
    by (simp add: onOpen_def Let_def split_def a)
  assume "gameOver_pending_ok s"
  then show "gameOver_pending_ok (onOpen w i now s)"
    by (auto simp: onOpen_def Let_def split_def gameOver_pending_ok_def startNewRound_flags)
qed

lemma onClose_segs_ok: "segs_ok (players s) \<Longrightarrow> segs_ok (players (onClose w now s))"
  by (simp add: onClose_def Let_def mapDelete_def segs_ok_filter)

lemma onClose_round:
  "roundNumber (gameState (onClose w now s)) = roundNumber (gameState s)"
  "gameOver_pending_ok s \<Longrightarrow> gameOver_pending_ok (onClose w now s)"
proof -
  show "roundNumber (gameState (onClose w now s)) = roundNumber (gameState s)"
    by (simp add: onClose_def Let_def)
  have "length (mapDelete w (players s)) \<le> length (players s)" by (simp add: mapDelete_def)
  moreover assume "gameOver_pending_ok s"
  ultimately show "gameOver_pending_ok (onClose w now s)"
    by (auto simp: onClose_def Let_def gameOver_pending_ok_def)
qed

lemma onTick_segs_ok: "segs_ok (players s) \<Longrightarrow> segs_ok (players (onTick now s))"
  by (auto simp: onTick_def Let_def startNewRound_segs_ok segs_ok_filter checkGameStatus_segs_ok)

lemma gpo_shrink:
  "gameOver_pending_ok s \<Longrightarrow> gameState s' = gameState s \<Longrightarrow>
   length (players s') \<le> length (players s) \<Longrightarrow> gameOver_pending_ok s'"
  by (auto simp: gameOver_pending_ok_def)

lemma onTick_round:
  "roundNumber (gameState s) \<le> roundNumber (gameState (onTick now s))"
  "gameOver_pending_ok s \<Longrightarrow> gameOver_pending_ok (onTick now s)"
proof -
  let ?s1 = "upd_gs (\<lambda>g. g\<lparr>serverTime := now\<rparr>) s"
  let ?s2 = "if waitingForPlayers (gameState ?s1) \<and> \<not> isActive (gameState ?s1)
                   \<and> length (players ?s1) \<ge> MIN_PLAYERS_TO_START
             then startNewRound now (upd_gs (\<lambda>g. g\<lparr>waitingForPlayers := False\<rparr>) ?s1) else ?s1"
  let ?s3 = "?s2\<lparr>players := filter (\<lambda>(w, p). \<not> (now - lastUpdate p > INACTIVE_TIMEOUT_MS))
                                 (players ?s2)\<rparr>"
  have e: "onTick now s =
      (if length (filter (\<lambda>(w, p). now - lastUpdate p > INACTIVE_TIMEOUT_MS) (players ?s2)) > 0
       then checkGameStatus now (broadcastPlayerStates now ?s3) else ?s3)"
    unfolding onTick_def Let_def ..
  have r2: "roundNumber (gameState s) \<le> roundNumber (gameState ?s2)"
    using rn_startNewRound [of "upd_gs (\<lambda>g. g\<lparr>waitingForPlayers := False\<rparr>) ?s1" now] by simp
  have r3: "roundNumber (gameState ?s3) = roundNumber (gameState ?s2)" by simp
  have r4: "roundNumber (gameState ?s3)
            \<le> roundNumber (gameState (checkGameStatus now (broadcastPlayerStates now ?s3)))"
    using rn_checkGameStatus [of "broadcastPlayerStates now ?s3" now] by simp
  show "roundNumber (gameState s) \<le> roundNumber (gameState (onTick now s))"
    unfolding e using r2 r3 r4 by (simp split: if_splits)
  assume g: "gameOver_pending_ok s"
  have g2: "gameOver_pending_ok ?s2"
    using g by (auto simp: gameOver_pending_ok_def startNewRound_flags)
  have g3: "gameOver_pending_ok ?s3" by (rule gpo_shrink [OF g2]) simp_all
  have "gameOver_pending_ok (broadcastPlayerStates now ?s3)"
    using g3 gpo_rc [OF rc_basic(6)] by blast
  then have g4: "gameOver_pending_ok (checkGameStatus now (broadcastPlayerStates now ?s3))"
    by (rule gpo_checkGameStatus)
  show "gameOver_pending_ok (onTick now s)"
    unfolding e using g3 g4 by (simp split: if_splits)
qed

lemma runTimer_segs_ok: "segs_ok (players s) \<Longrightarrow> segs_ok (players (runTimer t now s))"
  by (cases t) (simp_all add: runTimer_def checkGameStatus_segs_ok startNewRound_segs_ok
      gameOverReset_segs_ok)

lemma runTimer_round:
  "roundNumber (gameState s) \<le> roundNumber (gameState (runTimer t now s))"
  "gameOver_pending_ok s \<Longrightarrow> gameOver_pending_ok (runTimer t now s)"
  by (cases t; simp add: runTimer_def rn_checkGameStatus rn_startNewRound rn_gameOverReset
        gpo_checkGameStatus)+

lemma onTimeout_segs_ok: "segs_ok (players s) \<Longrightarrow> segs_ok (players (onTimeout k now s))"
  by (simp add: onTimeout_def runTimer_segs_ok)

lemma onTimeout_round:
  "roundNumber (gameState s) \<le> roundNumber (gameState (onTimeout k now s))"
  "gameOver_pending_ok s \<Longrightarrow> gameOver_pending_ok (onTimeout k now s)"
proof -
  let ?s' = "s\<lparr>timers := take k (timers s) @ drop (Suc k) (timers s)\<rparr>"
  have a: "roundNumber (gameState s) \<le> roundNumber (gameState (runTimer t now ?s'))" for t
    using runTimer_round(1) [of ?s' t now] by simp
  show "roundNumber (gameState s) \<le> roundNumber (gameState (onTimeout k now s))"
    by (simp add: onTimeout_def a)
  assume "gameOver_pending_ok s"
  then have "gameOver_pending_ok ?s'" by (simp add: gameOver_pending_ok_def)
  then show "gameOver_pending_ok (onTimeout k now s)"
    using \<open>gameOver_pending_ok s\<close> by (simp add: onTimeout_def runTimer_round(2))
qed

lemma step_segs_ok: "segs_ok (players s) \<Longrightarrow> segs_ok (players (step e s))"
  by (cases e) (simp_all add: step_def onOpen_segs_ok onMessage_segs_ok onClose_segs_ok
      onTick_segs_ok onTimeout_segs_ok)

lemma step_round_mono: "roundNumber (gameState s) \<le> roundNumber (gameState (step e s))"
proof -
  let ?s0 = "s\<lparr>outbox := []\<rparr>"
  have r: "roundNumber (gameState ?s0) = roundNumber (gameState s)" by simp
  show ?thesis
    using onOpen_round(1) [of ?s0] onMessage_round(1) [of ?s0] onClose_round(1) [of _ _ ?s0]
      onTick_round(1) [of ?s0] onTimeout_round(1) [of ?s0]
    by (cases e) (simp_all add: step_def)
qed

lemma step_gpo: "gameOver_pending_ok s \<Longrightarrow> gameOver_pending_ok (step e s)"
proof -
  let ?s0 = "s\<lparr>outbox := []\<rparr>"
  assume "gameOver_pending_ok s"
  then have "gameOver_pending_ok ?s0" by (simp add: gameOver_pending_ok_def)
  then show ?thesis
    by (cases e) (simp_all add: step_def onOpen_round onMessage_round onClose_round
        onTick_round onTimeout_round)
qed

lemma initState_eq:
  "initState r now =
     \<lparr>players = [],
      gameState = \<lparr>roundNumber = 1,
                    food = fst (generateFood FOOD_COUNT
                             \<lparr>players = [],
                              gameState = \<lparr>roundNumber = 1, food = [], winner = None,
                                            serverTime = now, roundEndTime = None,
                                            isActive = False, waitingForPlayers = True,
                                            gameOver = False, lastAnnouncementTime = now\<rparr>,
                              recentAnnouncements = [], timers = [], outbox = [], rng = r,
                              rngIdx = 0\<rparr>),
                    winner = None, serverTime = now,
                    roundEndTime = None, isActive = False, waitingForPlayers = True,
                    gameOver = False, lastAnnouncementTime = now\<rparr>,
      recentAnnouncements = [], timers = [], outbox = [], rng = r, rngIdx = 2 * FOOD_COUNT\<rparr>"
proof -
  let ?s0 = "\<lparr>players = [],
              gameState = \<lparr>roundNumber = 1, food = [], winner = None,
                            serverTime = now, roundEndTime = None,
                            isActive = False, waitingForPlayers = True,
                            gameOver = False, lastAnnouncementTime = now\<rparr>,
              recentAnnouncements = [], timers = [], outbox = [], rng = r, rngIdx = 0\<rparr>"
  have "snd (generateFood FOOD_COUNT ?s0) = ?s0\<lparr>rngIdx := 2 * FOOD_COUNT\<rparr>"
    by (simp only: generateFood_snd) simp
  then show ?thesis
    by (simp add: initState_def Let_def split_def upd_gs_def del: generateFood.simps)
qed

lemma reachable_segs_ok: "reachable s \<Longrightarrow> segs_ok (players s)"
proof (induction rule: reachable.induct)
  case (reachable_init r now)
  show ?case by (simp add: initState_eq segs_ok_def)
next
  case (reachable_step s e)
  then show ?case by (simp add: step_segs_ok)
qed

lemma reachable_gpo: "reachable s \<Longrightarrow> gameOver_pending_ok s"
proof (induction rule: reachable.induct)
  case (reachable_init r now)
  show ?case by (simp add: initState_eq gameOver_pending_ok_def)
next
  case (reachable_step s e)
  then show ?case by (simp add: step_gpo)
qed

lemma reachable_run: "reachable s \<Longrightarrow> reachable (run es s)"
  by (induction es arbitrary: s) (simp_all add: reachable_step)


text \<open>
  C1. In every state the server can reach from its start by connects, messages,
  disconnects, ticks and timer callbacks, every session in the store has at least one
  segment (so that index 0, the head, exists).
\<close>

theorem C1_segments_never_empty:
  "reachable s \<Longrightarrow> (w, p) \<in> set (players s) \<Longrightarrow> length (segments p) \<ge> 1"
proof -
  assume "reachable s" and m: "(w, p) \<in> set (players s)"
  then have "segs_ok (players s)" by (simp add: reachable_segs_ok)
  with m show ?thesis by (auto simp: segs_ok_def list_all_iff)
qed

lemma one_connected_players:
  "players one_connected = [(1, newPlayer ''first'' \<lparr>px = 800, py = 600\<rparr> 10)]"
  by (simp add: one_connected_def step_def onOpen_def Let_def split_def initState_eq
        spawnPosition_fst spawnPosition_snd calm_rng_def del: generateFood.simps)

theorem C1_segments_never_empty_witness:
  "reachable one_connected
   \<and> (1, newPlayer ''first'' \<lparr>px = 800, py = 600\<rparr> 10) \<in> set (players one_connected)
   \<and> length (segments (newPlayer ''first'' \<lparr>px = 800, py = 600\<rparr> 10)) \<ge> 1"
proof -
  have r: "reachable one_connected"
    unfolding one_connected_def by (intro reachable_step reachable_init)
  have m: "(1, newPlayer ''first'' \<lparr>px = 800, py = 600\<rparr> 10) \<in> set (players one_connected)"
    by (simp add: one_connected_players)
  from C1_segments_never_empty [OF r m] r m show ?thesis by blast
qed

lemma one_connected_flags:
  "\<not> isActive (gameState one_connected)" "waitingForPlayers (gameState one_connected)"
  by (simp_all add: one_connected_def step_def onOpen_def Let_def split_def initState_eq
        spawnPosition_snd del: generateFood.simps)

text \<open>
  C9. A \<open>forceStart\<close> message does not get past the player-count gate. With one session
  connected and the game waiting, the handler returns at the inactive-game check, before
  it looks at the message type: the state of the round is as before, not active.
\<close>

theorem C9_forceStart_single_player:
  "length (players one_connected) = 1
   \<and> \<not> isActive (gameState (step (Message 1 forceStartMsg 20) one_connected))
   \<and> waitingForPlayers (gameState (step (Message 1 forceStartMsg 20) one_connected))
   \<and> players (step (Message 1 forceStartMsg 20) one_connected) = players one_connected"
  by (simp add: step_def onMessage_def forceStartMsg_def handleParsed_def Let_def getPlayer_def
        one_connected_players one_connected_flags)

section \<open>A game played to the winning kill count\<close>

subsection \<open>Frames for the food and the random source\<close>

lemma still_refl [simp]: "still s s"
  by (simp add: still_def)

lemma still_trans: "still s s1 \<Longrightarrow> still s1 s2 \<Longrightarrow> still s s2"
  by (simp add: still_def)

lemma still_basic [simp]:
  "still s (upd_player w f s)"
  "still s (send w m s)"
  "still s (broadcast m s)"
  "still s (addTimer d t s)"
  "still s (broadcastAnnouncement now msg ty dur s)"
  "still s (broadcastPlayerStates now s)"
  by (simp_all add: still_def)

lemma killByTail_still: "still s (killByTail now cw wa s)"
  by (simp add: still_def killByTail_def Let_def split: option.splits)

lemma killedByMover_still: "still s (killedByMover cw wa s)"
  by (simp add: still_def killedByMover_def Let_def split: option.splits)

lemma headCollision_still: "still s (headCollision now cw wa s)"
  by (simp add: still_def headCollision_def Let_def split: option.splits)

lemma collidePair_still: "still s (collidePair now cw wa s)"
  by (auto simp: collidePair_def moverHitsTail_eq otherHitsTail_eq headCollision_still
        killByTail_still killedByMover_still
      intro: still_trans [OF killByTail_still killedByMover_still]
      split: option.splits list.splits)

lemma collisionLoop_still: "still s (collisionLoop now cw ws s)"
proof (induction ws arbitrary: s)
  case Nil
  show ?case by simp
next
  case (Cons wa ws)
  show ?case using still_trans [OF collidePair_still Cons] by simp
qed

lemma checkCollisions_still: "still s (checkCollisions now cw s)"
  by (simp add: checkCollisions_def collisionLoop_still)

lemma declareGameOver_still: "still s (declareGameOver now p s)"
  by (simp add: still_def declareGameOver_def Let_def)

lemma checkAlivePlayers_still: "still s (checkAlivePlayers now s)"
  by (simp add: still_def checkAlivePlayers_def Let_def split: list.splits)

lemma startNewRound_respawn_still:
  assumes "\<not> length (players s) < MIN_PLAYERS_TO_START" and "\<not> gameOver (gameState s)"
  shows "still s (startNewRound now s)"
proof -
  from startNewRound_respawn_shape [OF assms, of now] obtain k m a where
    "startNewRound now s =
     broadcastPlayerStates now
       (broadcastAnnouncement now a Success 2000
          (broadcast m
             (s\<lparr>gameState := (gameState s)\<lparr>isActive := True, winner := None, roundEndTime := None\<rparr>,
                rngIdx := k,
                players := fst (respawnDeadPlayers now (players s)
                                 (upd_gs (\<lambda>g. g\<lparr>isActive := True, winner := None,
                                                 roundEndTime := None\<rparr>) s))\<rparr>)))"
    by blast
  then show ?thesis by (simp add: still_def)
qed

subsection \<open>The food loop far from all food, and on top of all food\<close>

lemma foodLoop_far:
  "(\<And>i. i < n \<Longrightarrow> \<not> distance h (food (gameState s) ! i) < 15) \<Longrightarrow> foodLoop now w h n s = s"
  by (induction n) (simp_all add: foodStep_def)

lemma eatFood_rng: "rng (eatFood now w i s) = rng s"
proof -
  have a: "rng (foodMilestones now p t) = rng t" for p t
    by (simp add: foodMilestones_def Let_def)
  have b: "rng (notifyFoodEaten p t) = rng t" for p t
    by (simp add: notifyFoodEaten_def split: option.splits)
  show ?thesis
    by (simp add: eatFood_def Let_def mathRandom_def a b split: option.splits)
qed

lemma players_upd_player_cong:
  "players s' = players s \<Longrightarrow> players (upd_player w f s') = players (upd_player w f s)"
  by (simp add: upd_player_def)

lemma players_upd_player_twice:
  "players (upd_player w f (upd_player w g s)) = players (upd_player w (\<lambda>p. f (g p)) s)"
  by (auto simp: upd_player_def)

lemma replicate_cut:
  assumes "Suc n \<le> m"
  shows "take n (replicate m z) @ drop (Suc n) (replicate m z) @ [z] = replicate m z"
proof -
  have "replicate m z = replicate (n + (m - Suc n) + 1) z" using assms by simp
  also have "\<dots> = replicate n z @ replicate (m - Suc n) z @ [z]"
    by (simp only: replicate_add) simp
  finally have e: "replicate n z @ replicate (m - Suc n) z @ [z] = replicate m z" by (rule sym)
  have t: "take n (replicate m z) = replicate n z" using assms by (simp add: min_def)
  have d: "drop (Suc n) (replicate m z) = replicate (m - Suc n) z" by simp
  show ?thesis unfolding t d by (rule e)
qed

lemma foodLoop_feast:
  assumes "food (gameState s) = replicate m (pos 0 0)" and "n \<le> m"
    and "distance h (pos 0 0) < 15" and "rng s = calm_rng"
  shows "players (foodLoop now w h n s)
           = players (upd_player w (\<lambda>p. p\<lparr>score := score p + int n,
                                             growth := growth p + 2 * int n\<rparr>) s)
         \<and> food (gameState (foodLoop now w h n s)) = replicate m (pos 0 0)
         \<and> rng (foodLoop now w h n s) = calm_rng"
  using assms
proof (induction n arbitrary: s)
  case 0
  then show ?case by (simp add: upd_player_def)
next
  case (Suc n)
  let ?s1 = "eatFood now w n s"
  have near: "distance h (food (gameState s) ! n) < 15" using Suc.prems by simp
  have st: "foodStep now w h n s = ?s1" using near by (simp add: foodStep_def)
  have "take n (replicate m (pos 0 0)) @ drop (Suc n) (replicate m (pos 0 0)) @ [pos 0 0]
        = replicate m (pos 0 0)"
    using Suc.prems(2) by (rule replicate_cut)
  then have f1: "food (gameState ?s1) = replicate m (pos 0 0)"
    using Suc.prems(1,4) by (simp add: eatFood_food calm_rng_def pos_def)
  have r1: "rng ?s1 = calm_rng" using Suc.prems(4) by (simp add: eatFood_rng)
  from Suc.IH [OF f1 _ Suc.prems(3) r1] Suc.prems(2)
  have ih: "players (foodLoop now w h n ?s1)
              = players (upd_player w (\<lambda>p. p\<lparr>score := score p + int n,
                                                growth := growth p + 2 * int n\<rparr>) ?s1)"
    and rest: "food (gameState (foodLoop now w h n ?s1)) = replicate m (pos 0 0)"
      "rng (foodLoop now w h n ?s1) = calm_rng"
    by simp_all
  have "players (upd_player w (\<lambda>p. p\<lparr>score := score p + int n,
                                      growth := growth p + 2 * int n\<rparr>) ?s1)
        = players (upd_player w (\<lambda>p. p\<lparr>score := score p + int n,
                                      growth := growth p + 2 * int n\<rparr>)
                     (upd_player w (\<lambda>p. p\<lparr>score := score p + FOOD_SCORE_VALUE,
                                           growth := growth p + FOOD_SEGMENTS_GROWTH\<rparr>) s))"
    by (rule players_upd_player_cong) (rule eatFood_players)
  also have "\<dots> = players (upd_player w (\<lambda>p. p\<lparr>score := score p + int (Suc n),
                                      growth := growth p + 2 * int (Suc n)\<rparr>) s)"
    by (simp add: players_upd_player_twice algebra_simps)
  finally show ?case using ih rest st by simp
qed

subsection \<open>Distances between grid points\<close>

lemma dist_food:
  "(distance (pos a b) (pos c d) < 15) = ((a - c)\<^sup>2 + (b - d)\<^sup>2 < 225)"
  by (simp add: distance_def pos_def sqrt_less_num)

lemma dist_follow:
  "(24 < distance (pos a b) (pos c d)) = (576 < (a - c)\<^sup>2 + (b - d)\<^sup>2)"
  by (simp add: distance_def pos_def less_sqrt_num)

lemma ease_near: "\<not> 24 < distance a b \<Longrightarrow> ease a b = b"
  by (simp add: ease_def Let_def ease_dist)

lemma followLoop_short:
  "followLoop (Suc 0) [a] = [a]"
  "followLoop (Suc 0) [a, b] = [a, ease a b]"
  "followLoop (Suc 0) [a, b, c] = [a, ease a b, ease (ease a b) c]"
  "followLoop (Suc 0) [a, b, c, d] = [a, ease a b, ease (ease a b) c, ease (ease (ease a b) c) d]"
  by (simp_all add: followLoop.simps)

lemma updateSnakeSegments_single:
  "segments p = [h] \<Longrightarrow> growth p = 0 \<Longrightarrow> updateSnakeSegments p = p"
  by (cases p) (simp add: updateSnakeSegments_def applyGrowth_def Let_def followLoop_short)

subsection \<open>The paths through the message handler\<close>

lemma handleParsed_movement:
  "isActive (gameState s) \<Longrightarrow> getPlayer s w = Some p \<Longrightarrow> alive p \<Longrightarrow>
   handleParsed w (Some \<lparr>mtype = Movement, position = Some hp, mrotation = None\<rparr>) now s
     = handleMovement w hp None now s"
  by (simp add: handleParsed_def Let_def)

lemma handleParsed_restart:
  "\<not> isActive (gameState s) \<Longrightarrow> getPlayer s w = Some p \<Longrightarrow>
   length (players s) \<ge> MIN_PLAYERS_TO_START \<Longrightarrow>
   handleParsed w d now s
     = startNewRound now
         (broadcastAnnouncement now ''Game starting!'' Success 2000
            (upd_gs (\<lambda>g. g\<lparr>isActive := True\<rparr>) (upd_gs (\<lambda>g. g\<lparr>waitingForPlayers := False\<rparr>) s)))"
  by (simp add: handleParsed_def Let_def)

subsection \<open>Connecting under the constant random source\<close>

lemma generateFood_calm: "rng s = calm_rng \<Longrightarrow> fst (generateFood n s) = replicate n (pos 0 0)"
proof (induction n arbitrary: s)
  case 0
  show ?case by simp
next
  case (Suc n)
  have "rng (s\<lparr>rngIdx := Suc (Suc (rngIdx s))\<rparr>) = calm_rng" using Suc.prems by simp
  from Suc.IH [OF this] Suc.prems show ?case
    by (simp add: split_def Let_def calm_rng_def pos_def)
qed

lemma table_init: "table [] False True [] (initState calm_rng 0)"
  by (simp add: table_def initState_eq generateFood_calm del: generateFood.simps)

lemma mapSet_new: "w \<notin> set (map fst ps) \<Longrightarrow> mapSet w p ps = ps @ [(w, p)]"
  by (induction ps) auto

lemma startNewRound_table:
  assumes t: "table ps act wt ts s" and n: "length ps \<ge> 2"
  shows "\<exists>ps'. table ps' True wt ts (startNewRound now s)
               \<and> list_all2 (respawned now calm_rng) ps ps'"
proof -
  from t have ps: "players s = ps" and g: "\<not> gameOver (gameState s)"
    and w: "waitingForPlayers (gameState s) = wt" and r: "roundNumber (gameState s) = 1"
    and f: "food (gameState s) = replicate FOOD_COUNT (pos 0 0)" and c: "rng s = calm_rng"
    and ti: "timers s = ts"
    by (simp_all add: table_def)
  have big: "\<not> length (players s) < MIN_PLAYERS_TO_START" using n ps by simp
  have st: "still s (startNewRound now s)" using big g by (rule startNewRound_respawn_still)
  have rel: "list_all2 (respawned now calm_rng) ps (players (startNewRound now s))"
    using startNewRound_players_respawn [OF big g, of now] ps c by simp
  have "table (players (startNewRound now s)) True wt ts (startNewRound now s)"
    using st big g w r f c ti by (simp add: table_def startNewRound_flags still_def)
  with rel show ?thesis by blast
qed

lemma respawned_alive_id:
  "list_all (\<lambda>(w, p). alive p) ps \<Longrightarrow> list_all2 (respawned now r) ps qs \<Longrightarrow> qs = ps"
proof (induction ps arbitrary: qs)
  case Nil
  then show ?case by simp
next
  case (Cons a ps)
  then show ?case by (cases qs) (auto simp: respawned_def prod_eq_iff)
qed

lemma table_open:
  assumes t: "table ps act wt ts s"
    and fresh: "list_all (\<lambda>(w', p). \<not> now - lastUpdate p > 30000) ps"
    and new: "w \<notin> set (map fst ps)"
    and al: "list_all (\<lambda>(w', p). alive p) ps"
  shows "table (ps @ [(w, newPlayer i (pos 800 600) now)])
           (if wt \<and> length ps \<ge> 1 then True else act) (wt \<and> length ps < 1) ts
           (step (Open w i now) s)"
proof -
  let ?ps = "ps @ [(w, newPlayer i (pos 800 600) now)]"
  let ?s0 = "s\<lparr>outbox := []\<rparr>"
  let ?s1 = "?s0\<lparr>rngIdx := rngIdx s + 2\<rparr>"
  let ?s3 = "?s1\<lparr>players := ?ps\<rparr>"
  let ?g = "gameState ?s3"
  let ?s4 = "send w (Connected i (roundNumber ?g) (serverTime ?g) (waitingForPlayers ?g)
                      (if waitingForPlayers ?g then playersNeeded ?s3 else 0)) ?s3"
  define s5 where "s5 = broadcastPlayerStates now ?s4"
  from t have ps: "players s = ps" and c: "rng s = calm_rng" by (simp_all add: table_def)
  have fl: "filter (\<lambda>(w', p). \<not> now - lastUpdate p > 30000) ps = ps"
    using fresh by (simp add: list_all_iff split_def)
  have sp: "fst (spawnPosition ?s0) = pos 800 600"
    using c by (simp add: spawnPosition_fst calm_rng_def pos_def)
  have e: "step (Open w i now) s =
           (if waitingForPlayers (gameState s5) \<and> length (players s5) \<ge> MIN_PLAYERS_TO_START
            then startNewRound now (upd_gs (\<lambda>g. g\<lparr>waitingForPlayers := False\<rparr>) s5) else s5)"
    unfolding s5_def using sp ps fl mapSet_new [OF new]
    by (simp add: step_def onOpen_def Let_def split_def spawnPosition_snd)
  have t5: "table ?ps act wt ts s5"
    unfolding s5_def using t
    by (simp add: table_def broadcastPlayerStates_timers newPlayer_def)
  show ?thesis
  proof (cases "wt \<and> length ps \<ge> 1")
    case True
    define s6 where "s6 = upd_gs (\<lambda>g. g\<lparr>waitingForPlayers := False\<rparr>) s5"
    have t6: "table ?ps act False ts s6" using t5 by (simp add: table_def s6_def)
    have n: "length ?ps \<ge> 2" using True by simp
    from startNewRound_table [OF t6 n, of now] obtain ps' where
      t7: "table ps' True False ts (startNewRound now s6)"
      and rel: "list_all2 (respawned now calm_rng) ?ps ps'" by blast
    have "list_all (\<lambda>(w', p). alive p) ?ps" using al by (simp add: newPlayer_def)
    from respawned_alive_id [OF this rel] have p': "ps' = ?ps" .
    have "waitingForPlayers (gameState s5) \<and> length (players s5) \<ge> MIN_PLAYERS_TO_START"
      using t5 True by (simp add: table_def)
    then have "step (Open w i now) s = startNewRound now s6"
      unfolding e s6_def by (rule if_P)
    with t7 p' True show ?thesis by (cases ps) simp_all
  next
    case False
    then have "\<not> (waitingForPlayers (gameState s5) \<and> length (players s5) \<ge> MIN_PLAYERS_TO_START)"
      using t5 by (auto simp: table_def)
    then have "step (Open w i now) s = s5" unfolding e by (rule if_not_P)
    with t5 False show ?thesis by (cases ps) auto
  qed
qed

subsection \<open>A movement on a table\<close>

lemma step_movement:
  assumes "isActive (gameState s)" and "getPlayer s w = Some p" and "alive p"
  shows "step (Message w (mv x y) now) s = handleMovement w (pos x y) None now (s\<lparr>outbox := []\<rparr>)"
proof -
  have "getPlayer (s\<lparr>outbox := []\<rparr>) w = Some p" using assms(2) by (simp add: getPlayer_def)
  from handleParsed_movement [OF _ this assms(3), of "pos x y" now] assms(1)
  show ?thesis by (simp add: step_def onMessage_def mv_def)
qed

lemma movement_table:
  assumes t: "table ps True False ts s" and gp: "map_of ps w = Some p" and al: "alive p"
    and s4: "s4 = upd_player w updateSnakeSegments
                    (upd_player w (\<lambda>p. if length (segments p) > 0
                                        then p\<lparr>segments := (segments p)[0 := pos x y]\<rparr> else p)
                       (upd_player w (\<lambda>p. p\<lparr>lastUpdate := now\<rparr>) (s\<lparr>outbox := []\<rparr>)))"
    and s5: "s5 = checkFoodCollisions now w s4"
    and f5: "food (gameState s5) = replicate FOOD_COUNT (pos 0 0)" and r5: "rng s5 = calm_rng"
    and s6: "s6 = checkCollisions now w s5"
  shows "step (Message w (mv x y) now) s = broadcastPlayerStates now (checkGameStatus now s6)"
    and "table (players s6) True False ts s6" and "gameOverSent s6 = 0"
proof -
  let ?s0 = "s\<lparr>outbox := []\<rparr>"
  from t have ps: "players s = ps" and act: "isActive (gameState s)"
    by (simp_all add: table_def)
  have g: "getPlayer s w = Some p" using gp ps by (simp add: getPlayer_def)
  show "step (Message w (mv x y) now) s = broadcastPlayerStates now (checkGameStatus now s6)"
    unfolding step_movement [OF act g al] handleMovement_eq s6 s5 s4 by simp
  have q: "quiet ?s0 s6"
    using movement_prefix_quiet
            [where s = ?s0 and now = now and w = w and rot = None and ?f4.0 = updateSnakeSegments
               and ?f2.0 = "\<lambda>p. if length (segments p) > 0
                                then p\<lparr>segments := (segments p)[0 := pos x y]\<rparr> else p"
               and ?f1.0 = "\<lambda>p. p\<lparr>lastUpdate := now\<rparr>"]
    unfolding s6 s5 s4 by simp
  have st: "still s5 s6" unfolding s6 by (rule checkCollisions_still)
  have g0: "gameOverSent ?s0 = 0" by (simp add: gameOverSent_def)
  show "gameOverSent s6 = 0" using quiet_fields(2) [OF q] g0 by simp
  show "table (players s6) True False ts s6"
    using t quiet_flags [OF q] quiet_fields(1) [OF q] st f5 r5
    by (simp add: table_def still_def)
qed

text \<open>The round status and the snapshot after a movement, in the three cases that occur.\<close>

lemma status_idle:
  assumes t: "table ps True False ts s"
    and nw: "find (\<lambda>(w, p). kills p \<ge> WINNING_KILLS) ps = None"
    and al: "length (filter (\<lambda>(w, p). alive p) ps) \<ge> 2"
  shows "table ps True False ts (broadcastPlayerStates now (checkGameStatus now s))"
proof -
  from t have ps: "players s = ps" by (simp add: table_def)
  have "checkGameStatus now s = checkAlivePlayers now s"
    using t nw by (simp add: checkGameStatus_running table_def)
  also have "\<dots> = s" using al ps by (simp add: checkAlivePlayers_idle)
  finally have e: "checkGameStatus now s = s" .
  have "filter (\<lambda>(w, p). alive p) ps \<noteq> []" using al by auto
  then show ?thesis using t unfolding e by (simp add: table_def broadcastPlayerStates_timers)
qed

lemma status_last:
  assumes t: "table ps True False ts s"
    and nw: "find (\<lambda>(w, p). kills p \<ge> WINNING_KILLS) ps = None"
    and al: "filter (\<lambda>(w, p). alive p) ps = [(w, p)]" and n: "length ps > 1"
  shows "table ps True False (ts @ [(now + 3000, TStartNewRound)])
           (broadcastPlayerStates now (checkGameStatus now s))"
proof -
  from t have ps: "players s = ps" by (simp add: table_def)
  have e: "checkGameStatus now s = checkAlivePlayers now s"
    using t nw by (simp add: checkGameStatus_running table_def)
  have al': "filter (\<lambda>(w, p). alive p) (players s) = [(w, p)]" and n': "length (players s) > 1"
    using al n ps by simp_all
  have st: "still s (checkAlivePlayers now s)" by (rule checkAlivePlayers_still)
  have "table ps True False (ts @ [(now + 3000, TStartNewRound)]) (checkAlivePlayers now s)"
    using t st checkAlivePlayers_last [OF al' n', of now]
    by (simp add: table_def still_def)
  then show ?thesis
    using al unfolding e by (simp add: table_def broadcastPlayerStates_timers)
qed

lemma status_win:
  assumes t: "table ps True False ts s"
    and wn: "find (\<lambda>(w, p). kills p \<ge> WINNING_KILLS) ps = Some (w, p)"
    and al: "filter (\<lambda>(w, p). alive p) ps \<noteq> []"
    and g0: "gameOverSent s = 0"
  shows "table ps False False (ts @ [(now + 5000, TGameOverReset)])
           (broadcastPlayerStates now (checkGameStatus now s))"
    and "gameOverSent (broadcastPlayerStates now (checkGameStatus now s)) = length ps"
proof -
  from t have ps: "players s = ps" by (simp add: table_def)
  have e: "checkGameStatus now s = declareGameOver now p s"
    using t wn by (simp add: checkGameStatus_running table_def)
  have st: "still s (declareGameOver now p s)" by (rule declareGameOver_still)
  have "table ps False False (ts @ [(now + 5000, TGameOverReset)]) (declareGameOver now p s)"
    using t st by (simp add: table_def still_def)
  then show "table ps False False (ts @ [(now + 5000, TGameOverReset)])
           (broadcastPlayerStates now (checkGameStatus now s))"
    using al unfolding e by (simp add: table_def broadcastPlayerStates_timers)
  show "gameOverSent (broadcastPlayerStates now (checkGameStatus now s)) = length ps"
    unfolding e using g0 ps by simp
qed

subsection \<open>The moves of the game\<close>

lemma checkFood_far:
  assumes "food (gameState s) = replicate n (pos 0 0)" and "getPlayer s w = Some p"
    and "segments p = pos x y # rest" and "\<not> x\<^sup>2 + y\<^sup>2 < 225"
  shows "checkFoodCollisions now w s = s"
proof -
  have "foodLoop now w (pos x y) n s = s"
    by (rule foodLoop_far) (simp add: assms(1,4) dist_food)
  then show ?thesis using assms(1,2,3) by (simp add: checkFoodCollisions_def)
qed

lemma alpha_feast:
  assumes st: "stage [pos 800 600] 0 0 True True True ts s"
  shows "stage [pos 0 0] 200 0 True True True ts (step (Message 1 (mv 0 0) now) s)"
proof -
  from st obtain pa pb pc where t: "table [(1, pa), (2, pb), (3, pc)] True False ts s"
    and a: "alive pa" "segments pa = [pos 800 600]" "growth pa = 0" "kills pa = 0"
    and b: "rival True pb" and c: "rival True pc"
    by (auto simp: stage_def)
  define s4 where "s4 = upd_player 1 updateSnakeSegments
                    (upd_player 1 (\<lambda>p. if length (segments p) > 0
                                        then p\<lparr>segments := (segments p)[0 := pos 0 0]\<rparr> else p)
                       (upd_player 1 (\<lambda>p. p\<lparr>lastUpdate := now\<rparr>) (s\<lparr>outbox := []\<rparr>)))"
  define s5 where "s5 = checkFoodCollisions now 1 s4"
  define s6 where "s6 = checkCollisions now 1 s5"
  define pa1 where "pa1 = pa\<lparr>lastUpdate := now, segments := [pos 0 0]\<rparr>"
  define pa2 where "pa2 = pa1\<lparr>score := score pa1 + 100, growth := growth pa1 + 200\<rparr>"
  have p4: "players s4 = [(1, pa1), (2, pb), (3, pc)]"
    using t a by (simp add: s4_def upd_player_def table_def updateSnakeSegments_single pa1_def)
  have f4: "food (gameState s4) = replicate FOOD_COUNT (pos 0 0)" and r4: "rng s4 = calm_rng"
    using t by (simp_all add: s4_def table_def)
  have e5: "s5 = foodLoop now 1 (pos 0 0) 100 s4"
    using a by (simp add: s5_def checkFoodCollisions_def getPlayer_def p4 pa1_def f4)
  have near: "distance (pos 0 0) (pos 0 0) < 15" by (simp add: dist_food)
  from foodLoop_feast [OF f4 _ near r4, of 100 now 1]
  have p5: "players s5 = [(1, pa2), (2, pb), (3, pc)]"
    and f5: "food (gameState s5) = replicate FOOD_COUNT (pos 0 0)" and r5: "rng s5 = calm_rng"
    by (simp_all add: e5 upd_player_def p4 pa2_def)
  have e6: "s6 = s5"
    using a b c
    by (simp add: s6_def checkCollisions_def p5 collidePair_def getPlayer_def rival_def
          dist_eval pa1_def pa2_def)
  have gp: "map_of [(1, pa), (2, pb), (3, pc)] (1::nat) = Some pa" by simp
  note m = movement_table [OF t gp a(1) s4_def s5_def f5 r5 s6_def]
  have t6: "table [(1, pa2), (2, pb), (3, pc)] True False ts s6"
    using m(2) by (simp add: e6 p5)
  have "table [(1, pa2), (2, pb), (3, pc)] True False ts
          (broadcastPlayerStates now (checkGameStatus now s6))"
    using a b c by (intro status_idle [OF t6]) (simp_all add: pa1_def pa2_def rival_def)
  then show ?thesis
    using a b c unfolding m(1) stage_def
    by (intro exI [of _ pa2] exI [of _ pb] exI [of _ pc]) (simp add: pa1_def pa2_def)
qed

lemma alpha_grow1:
  assumes st: "stage [pos 0 0] 200 0 True True True ts s"
  shows "stage [pos 100 120, pos 100 120] 199 0 True True True ts
           (step (Message 1 (mv 100 120) now) s)"
proof -
  from st obtain pa pb pc where t: "table [(1, pa), (2, pb), (3, pc)] True False ts s"
    and a: "alive pa" "segments pa = [pos 0 0]" "growth pa = 200" "kills pa = 0"
    and b: "rival True pb" and c: "rival True pc"
    by (auto simp: stage_def)
  define s4 where "s4 = upd_player 1 updateSnakeSegments
                    (upd_player 1 (\<lambda>p. if length (segments p) > 0
                                        then p\<lparr>segments := (segments p)[0 := pos 100 120]\<rparr> else p)
                       (upd_player 1 (\<lambda>p. p\<lparr>lastUpdate := now\<rparr>) (s\<lparr>outbox := []\<rparr>)))"
  define s5 where "s5 = checkFoodCollisions now 1 s4"
  define s6 where "s6 = checkCollisions now 1 s5"
  define pa1 where "pa1 = pa\<lparr>lastUpdate := now, segments := [pos 100 120, pos 100 120],
                            growth := 199\<rparr>"
  have u: "updateSnakeSegments (pa\<lparr>lastUpdate := now, segments := [pos 100 120]\<rparr>) = pa1"
    using a
    by (simp add: updateSnakeSegments_def applyGrowth_def Let_def followLoop_short ease_near
          dist_follow pa1_def)
  have p4: "players s4 = [(1, pa1), (2, pb), (3, pc)]"
    using t a u by (simp add: s4_def upd_player_def table_def)
  have f4: "food (gameState s4) = replicate FOOD_COUNT (pos 0 0)" and r4: "rng s4 = calm_rng"
    using t by (simp_all add: s4_def table_def)
  have g4: "getPlayer s4 1 = Some pa1" by (simp add: getPlayer_def p4)
  have e5: "s5 = s4"
    unfolding s5_def by (rule checkFood_far [OF f4 g4, where x = 100 and y = 120]) (simp_all add: pa1_def)
  have e6: "s6 = s4"
    using a b c
    by (simp add: s6_def e5 checkCollisions_def p4 collidePair_def getPlayer_def rival_def
          dist_eval pa1_def)
  have gp: "map_of [(1, pa), (2, pb), (3, pc)] (1::nat) = Some pa" by simp
  have f5: "food (gameState s5) = replicate FOOD_COUNT (pos 0 0)" and r5: "rng s5 = calm_rng"
    using f4 r4 by (simp_all add: e5)
  note m = movement_table [OF t gp a(1) s4_def s5_def f5 r5 s6_def]
  have t6: "table [(1, pa1), (2, pb), (3, pc)] True False ts s6"
    using m(2) by (simp add: e6 p4)
  have "table [(1, pa1), (2, pb), (3, pc)] True False ts
          (broadcastPlayerStates now (checkGameStatus now s6))"
    using a b c by (intro status_idle [OF t6]) (simp_all add: pa1_def rival_def)
  then show ?thesis
    using a b c unfolding m(1) stage_def
    by (intro exI [of _ pa1] exI [of _ pb] exI [of _ pc]) (simp add: pa1_def)
qed

lemma alpha_grow2:
  assumes st: "stage [pos 100 120, pos 100 120] 199 0 True True True ts s"
  shows "stage [pos 100 140, pos 100 120, pos 100 120] 198 0 True True True ts
           (step (Message 1 (mv 100 140) now) s)"
proof -
  from st obtain pa pb pc where t: "table [(1, pa), (2, pb), (3, pc)] True False ts s"
    and a: "alive pa" "segments pa = [pos 100 120, pos 100 120]" "growth pa = 199" "kills pa = 0"
    and b: "rival True pb" and c: "rival True pc"
    by (auto simp: stage_def)
  define s4 where "s4 = upd_player 1 updateSnakeSegments
                    (upd_player 1 (\<lambda>p. if length (segments p) > 0
                                        then p\<lparr>segments := (segments p)[0 := pos 100 140]\<rparr> else p)
                       (upd_player 1 (\<lambda>p. p\<lparr>lastUpdate := now\<rparr>) (s\<lparr>outbox := []\<rparr>)))"
  define s5 where "s5 = checkFoodCollisions now 1 s4"
  define s6 where "s6 = checkCollisions now 1 s5"
  define pa1 where "pa1 = pa\<lparr>lastUpdate := now,
                            segments := [pos 100 140, pos 100 120, pos 100 120],
                            growth := 198\<rparr>"
  have u: "updateSnakeSegments
             (pa\<lparr>lastUpdate := now, segments := [pos 100 140, pos 100 120]\<rparr>) = pa1"
    using a
    by (simp add: updateSnakeSegments_def applyGrowth_def Let_def followLoop_short ease_near
          dist_follow pa1_def)
  have p4: "players s4 = [(1, pa1), (2, pb), (3, pc)]"
    using t a u by (simp add: s4_def upd_player_def table_def)
  have f4: "food (gameState s4) = replicate FOOD_COUNT (pos 0 0)" and r4: "rng s4 = calm_rng"
    using t by (simp_all add: s4_def table_def)
  have g4: "getPlayer s4 1 = Some pa1" by (simp add: getPlayer_def p4)
  have e5: "s5 = s4"
    unfolding s5_def by (rule checkFood_far [OF f4 g4, where x = 100 and y = 140]) (simp_all add: pa1_def)
  have e6: "s6 = s4"
    using a b c
    by (simp add: s6_def e5 checkCollisions_def p4 collidePair_def getPlayer_def rival_def
          dist_eval pa1_def)
  have gp: "map_of [(1, pa), (2, pb), (3, pc)] (1::nat) = Some pa" by simp
  have f5: "food (gameState s5) = replicate FOOD_COUNT (pos 0 0)" and r5: "rng s5 = calm_rng"
    using f4 r4 by (simp_all add: e5)
  note m = movement_table [OF t gp a(1) s4_def s5_def f5 r5 s6_def]
  have t6: "table [(1, pa1), (2, pb), (3, pc)] True False ts s6"
    using m(2) by (simp add: e6 p4)
  have "table [(1, pa1), (2, pb), (3, pc)] True False ts
          (broadcastPlayerStates now (checkGameStatus now s6))"
    using a b c by (intro status_idle [OF t6]) (simp_all add: pa1_def rival_def)
  then show ?thesis
    using a b c unfolding m(1) stage_def
    by (intro exI [of _ pa1] exI [of _ pb] exI [of _ pc]) (simp add: pa1_def)
qed

text \<open>
  A rival moves its head to (100, 110), ten away from the tail segment at (100, 120) and
  thirty from the head at (100, 140): it dies on the tail and connection 1 is credited.
\<close>

lemma bravo_prefix:
  assumes t: "table [(1, pa), (2, pb), (3, pc)] True False ts s"
    and a: "alive pa" "segments pa = [pos 100 140, pos 100 120, pos 100 120]"
    and b: "rival True pb" and c: "rival cc pc"
  shows "\<exists>s6 pa' pb'. step (Message 2 (mv 100 110) now) s
                         = broadcastPlayerStates now (checkGameStatus now s6)
           \<and> table [(1, pa'), (2, pb'), (3, pc)] True False ts s6 \<and> gameOverSent s6 = 0
           \<and> alive pa' \<and> segments pa' = segments pa \<and> growth pa' = growth pa + 5
           \<and> kills pa' = kills pa + 1 \<and> rival False pb'"
proof -
  define s4 where "s4 = upd_player 2 updateSnakeSegments
                    (upd_player 2 (\<lambda>p. if length (segments p) > 0
                                        then p\<lparr>segments := (segments p)[0 := pos 100 110]\<rparr> else p)
                       (upd_player 2 (\<lambda>p. p\<lparr>lastUpdate := now\<rparr>) (s\<lparr>outbox := []\<rparr>)))"
  define s5 where "s5 = checkFoodCollisions now 2 s4"
  define s6 where "s6 = checkCollisions now 2 s5"
  define pb1 where "pb1 = pb\<lparr>lastUpdate := now, segments := [pos 100 110]\<rparr>"
  define pa' where "pa' = pa\<lparr>kills := kills pa + 1, score := score pa + 5,
                            growth := growth pa + 5\<rparr>"
  have p4: "players s4 = [(1, pa), (2, pb1), (3, pc)]"
    using t b
    by (simp add: s4_def upd_player_def table_def updateSnakeSegments_single pb1_def rival_def)
  have f4: "food (gameState s4) = replicate FOOD_COUNT (pos 0 0)" and r4: "rng s4 = calm_rng"
    using t by (simp_all add: s4_def table_def)
  have g4: "getPlayer s4 2 = Some pb1" by (simp add: getPlayer_def p4)
  have e5: "s5 = s4"
    unfolding s5_def by (rule checkFood_far [OF f4 g4, where x = 100 and y = 110]) (simp_all add: pb1_def)
  have e6: "s6 = killByTail now 2 1 s4"
    using a b c
    by (cases cc)
       (simp_all add: s6_def e5 checkCollisions_def p4 collidePair_def getPlayer_def rival_def
          dist_eval pb1_def killByTail_players upd_player_def)
  have p6: "players s6 = [(1, pa'), (2, pb1\<lparr>alive := False\<rparr>), (3, pc)]"
    by (simp add: e6 killByTail_players upd_player_def p4 pa'_def)
  have gp: "map_of [(1, pa), (2, pb), (3, pc)] (2::nat) = Some pb" by simp
  have f5: "food (gameState s5) = replicate FOOD_COUNT (pos 0 0)" and r5: "rng s5 = calm_rng"
    using f4 r4 by (simp_all add: e5)
  have ab: "alive pb" using b by (simp add: rival_def)
  note m = movement_table [OF t gp ab s4_def s5_def f5 r5 s6_def]
  have t6: "table [(1, pa'), (2, pb1\<lparr>alive := False\<rparr>), (3, pc)] True False ts s6"
    using m(2) by (simp add: p6)
  have "rival False (pb1\<lparr>alive := False\<rparr>)" using b by (simp add: rival_def pb1_def)
  with t6 m(1) m(3) a show ?thesis
    by (intro exI [of _ s6] exI [of _ pa'] exI [of _ "pb1\<lparr>alive := False\<rparr>"])
       (simp add: pa'_def)
qed

lemma bravo_dies:
  assumes st: "stage [pos 100 140, pos 100 120, pos 100 120] ga k True True True ts s"
    and k: "k < 9"
  shows "stage [pos 100 140, pos 100 120, pos 100 120] (ga + 5) (k + 1) False True True ts
           (step (Message 2 (mv 100 110) now) s)"
proof -
  from st obtain pa pb pc where t: "table [(1, pa), (2, pb), (3, pc)] True False ts s"
    and a: "alive pa" "segments pa = [pos 100 140, pos 100 120, pos 100 120]"
      "growth pa = ga" "kills pa = k"
    and b: "rival True pb" and c: "rival True pc"
    by (auto simp: stage_def)
  from bravo_prefix [OF t a(1,2) b c, of now] obtain s6 pa' pb' where
    e: "step (Message 2 (mv 100 110) now) s = broadcastPlayerStates now (checkGameStatus now s6)"
    and t6: "table [(1, pa'), (2, pb'), (3, pc)] True False ts s6"
    and a': "alive pa'" "segments pa' = segments pa" "growth pa' = growth pa + 5"
      "kills pa' = kills pa + 1"
    and b': "rival False pb'"
    by blast
  have "table [(1, pa'), (2, pb'), (3, pc)] True False ts
          (broadcastPlayerStates now (checkGameStatus now s6))"
    using a a' b' c k by (intro status_idle [OF t6]) (simp_all add: rival_def)
  then show ?thesis
    using a a' b' c unfolding e stage_def
    by (intro exI [of _ pa'] exI [of _ pb'] exI [of _ pc]) simp
qed

lemma carol_prefix:
  assumes t: "table [(1, pa), (2, pb), (3, pc)] True False ts s"
    and a: "alive pa" "segments pa = [pos 100 140, pos 100 120, pos 100 120]"
    and b: "rival False pb" and c: "rival True pc"
  shows "\<exists>s6 pa' pc'. step (Message 3 (mv 100 110) now) s
                         = broadcastPlayerStates now (checkGameStatus now s6)
           \<and> table [(1, pa'), (2, pb), (3, pc')] True False ts s6 \<and> gameOverSent s6 = 0
           \<and> alive pa' \<and> segments pa' = segments pa \<and> growth pa' = growth pa + 5
           \<and> kills pa' = kills pa + 1 \<and> rival False pc'"
proof -
  define s4 where "s4 = upd_player 3 updateSnakeSegments
                    (upd_player 3 (\<lambda>p. if length (segments p) > 0
                                        then p\<lparr>segments := (segments p)[0 := pos 100 110]\<rparr> else p)
                       (upd_player 3 (\<lambda>p. p\<lparr>lastUpdate := now\<rparr>) (s\<lparr>outbox := []\<rparr>)))"
  define s5 where "s5 = checkFoodCollisions now 3 s4"
  define s6 where "s6 = checkCollisions now 3 s5"
  define pc1 where "pc1 = pc\<lparr>lastUpdate := now, segments := [pos 100 110]\<rparr>"
  define pa' where "pa' = pa\<lparr>kills := kills pa + 1, score := score pa + 5,
                            growth := growth pa + 5\<rparr>"
  have p4: "players s4 = [(1, pa), (2, pb), (3, pc1)]"
    using t c
    by (simp add: s4_def upd_player_def table_def updateSnakeSegments_single pc1_def rival_def)
  have f4: "food (gameState s4) = replicate FOOD_COUNT (pos 0 0)" and r4: "rng s4 = calm_rng"
    using t by (simp_all add: s4_def table_def)
  have g4: "getPlayer s4 3 = Some pc1" by (simp add: getPlayer_def p4)
  have e5: "s5 = s4"
    unfolding s5_def
    by (rule checkFood_far [OF f4 g4, where x = 100 and y = 110]) (simp_all add: pc1_def)
  have e6: "s6 = killByTail now 3 1 s4"
    using a b c
    by (simp add: s6_def e5 checkCollisions_def p4 collidePair_def getPlayer_def rival_def
          dist_eval pc1_def killByTail_players upd_player_def)
  have p6: "players s6 = [(1, pa'), (2, pb), (3, pc1\<lparr>alive := False\<rparr>)]"
    by (simp add: e6 killByTail_players upd_player_def p4 pa'_def)
  have gp: "map_of [(1, pa), (2, pb), (3, pc)] (3::nat) = Some pc" by simp
  have f5: "food (gameState s5) = replicate FOOD_COUNT (pos 0 0)" and r5: "rng s5 = calm_rng"
    using f4 r4 by (simp_all add: e5)
  have ac: "alive pc" using c by (simp add: rival_def)
  note m = movement_table [OF t gp ac s4_def s5_def f5 r5 s6_def]
  have t6: "table [(1, pa'), (2, pb), (3, pc1\<lparr>alive := False\<rparr>)] True False ts s6"
    using m(2) by (simp add: p6)
  have "rival False (pc1\<lparr>alive := False\<rparr>)" using c by (simp add: rival_def pc1_def)
  with t6 m(1) m(3) a show ?thesis
    by (intro exI [of _ s6] exI [of _ pa'] exI [of _ "pc1\<lparr>alive := False\<rparr>"])
       (simp add: pa'_def)
qed

lemma carol_dies:
  assumes st: "stage [pos 100 140, pos 100 120, pos 100 120] ga k False True True ts s"
    and k: "k < 9"
  shows "stage [pos 100 140, pos 100 120, pos 100 120] (ga + 5) (k + 1) False False True
           (ts @ [(now + 3000, TStartNewRound)]) (step (Message 3 (mv 100 110) now) s)"
proof -
  from st obtain pa pb pc where t: "table [(1, pa), (2, pb), (3, pc)] True False ts s"
    and a: "alive pa" "segments pa = [pos 100 140, pos 100 120, pos 100 120]"
      "growth pa = ga" "kills pa = k"
    and b: "rival False pb" and c: "rival True pc"
    by (auto simp: stage_def)
  from carol_prefix [OF t a(1,2) b c, of now] obtain s6 pa' pc' where
    e: "step (Message 3 (mv 100 110) now) s = broadcastPlayerStates now (checkGameStatus now s6)"
    and t6: "table [(1, pa'), (2, pb), (3, pc')] True False ts s6"
    and a': "alive pa'" "segments pa' = segments pa" "growth pa' = growth pa + 5"
      "kills pa' = kills pa + 1"
    and c': "rival False pc'"
    by blast
  have "table [(1, pa'), (2, pb), (3, pc')] True False (ts @ [(now + 3000, TStartNewRound)])
          (broadcastPlayerStates now (checkGameStatus now s6))"
    using a a' b c' k
    by (intro status_last [OF t6, where w = 1 and p = pa']) (simp_all add: rival_def)
  then show ?thesis
    using a a' b c' unfolding e stage_def
    by (intro exI [of _ pa'] exI [of _ pb] exI [of _ pc']) simp
qed

lemma carol_wins:
  assumes st: "stage [pos 100 140, pos 100 120, pos 100 120] ga 9 False True True ts s"
  shows "stage [pos 100 140, pos 100 120, pos 100 120] (ga + 5) 10 False False False
           (ts @ [(now + 5000, TGameOverReset)]) (step (Message 3 (mv 100 110) now) s)"
    and "gameOverSent (step (Message 3 (mv 100 110) now) s) = 3"
proof -
  from st obtain pa pb pc where t: "table [(1, pa), (2, pb), (3, pc)] True False ts s"
    and a: "alive pa" "segments pa = [pos 100 140, pos 100 120, pos 100 120]"
      "growth pa = ga" "kills pa = 9"
    and b: "rival False pb" and c: "rival True pc"
    by (auto simp: stage_def)
  from carol_prefix [OF t a(1,2) b c, of now] obtain s6 pa' pc' where
    e: "step (Message 3 (mv 100 110) now) s = broadcastPlayerStates now (checkGameStatus now s6)"
    and t6: "table [(1, pa'), (2, pb), (3, pc')] True False ts s6"
    and g6: "gameOverSent s6 = 0"
    and a': "alive pa'" "segments pa' = segments pa" "growth pa' = growth pa + 5"
      "kills pa' = kills pa + 1"
    and c': "rival False pc'"
    by blast
  have f: "find (\<lambda>(w, p). kills p \<ge> WINNING_KILLS) [(1, pa'), (2, pb), (3, pc')] = Some (1, pa')"
    using a a' by simp
  have al: "filter (\<lambda>(w, p). alive p) [(1, pa'), (2, pb), (3, pc')] \<noteq> []"
    using a' by simp
  note w = status_win [OF t6 f al g6, of now]
  from w(1) show "stage [pos 100 140, pos 100 120, pos 100 120] (ga + 5) 10 False False False
           (ts @ [(now + 5000, TGameOverReset)]) (step (Message 3 (mv 100 110) now) s)"
    using a a' b c' unfolding e stage_def
    by (intro exI [of _ pa'] exI [of _ pb] exI [of _ pc']) simp
  from w(2) show "gameOverSent (step (Message 3 (mv 100 110) now) s) = 3"
    unfolding e by simp
qed

text \<open>A round start on a table of three respawns the dead rivals at the spawn point.\<close>

lemma respawn_stage:
  assumes t: "table [(1, pa), (2, pb), (3, pc)] act False ts s"
    and a: "alive pa" and b: "rival bb pb" and c: "rival cc pc"
  shows "stage (segments pa) (growth pa) (kills pa) True True True ts (startNewRound now s)"
proof -
  from startNewRound_table [OF t, of now] obtain ps' where
    t': "table ps' True False ts (startNewRound now s)"
    and rel: "list_all2 (respawned now calm_rng) [(1, pa), (2, pb), (3, pc)] ps'"
    by auto
  from rel obtain x y z where ps': "ps' = [x, y, z]"
    and rx: "respawned now calm_rng (1, pa) x" and ry: "respawned now calm_rng (2, pb) y"
    and rz: "respawned now calm_rng (3, pc) z"
    by (auto simp: list_all2_Cons1)
  have x: "x = (1, pa)" using rx a by (simp add: respawned_def prod_eq_iff)
  have y: "fst y = 2" "rival True (snd y)"
    using ry b by (auto simp: respawned_def rival_def calm_rng_def pos_def split: if_splits)
  have z: "fst z = 3" "rival True (snd z)"
    using rz c by (auto simp: respawned_def rival_def calm_rng_def pos_def split: if_splits)
  have "ps' = [(1, pa), (2, snd y), (3, snd z)]"
    using ps' x y(1) z(1) by (simp add: prod_eq_iff)
  with t' y(2) z(2) a show ?thesis
    unfolding stage_def by (intro exI [of _ pa] exI [of _ "snd y"] exI [of _ "snd z"]) simp
qed

lemma respawn_timer:
  assumes st: "stage sa ga k b c True [(d, TStartNewRound)] s" and d: "d \<le> now"
  shows "stage sa ga k True True True [] (step (Timeout 0 now) s)"
proof -
  from st obtain pa pb pc where
    t: "table [(1, pa), (2, pb), (3, pc)] True False [(d, TStartNewRound)] s"
    and a: "alive pa" "segments pa = sa" "growth pa = ga" "kills pa = k"
    and b: "rival b pb" and c: "rival c pc"
    by (auto simp: stage_def)
  define s0 where "s0 = s\<lparr>outbox := [], timers := []\<rparr>"
  have e: "step (Timeout 0 now) s = startNewRound now s0"
    using t d by (simp add: step_def onTimeout_def runTimer_def table_def s0_def)
  have t0: "table [(1, pa), (2, pb), (3, pc)] True False [] s0"
    using t by (simp add: table_def s0_def)
  from respawn_stage [OF t0 a(1) b c, of now] a show ?thesis unfolding e by simp
qed

text \<open>A message of a connected client while the game is not active starts the round again.\<close>

lemma restart_by_message:
  assumes st: "stage sa ga k b c False ts s"
  shows "stage sa ga k True True True ts (step (Message 1 (mv x y) now) s)"
proof -
  from st obtain pa pb pc where
    t: "table [(1, pa), (2, pb), (3, pc)] False False ts s"
    and a: "alive pa" "segments pa = sa" "growth pa = ga" "kills pa = k"
    and b: "rival b pb" and c: "rival c pc"
    by (auto simp: stage_def)
  define s3 where "s3 = broadcastAnnouncement now ''Game starting!'' Success 2000
            (upd_gs (\<lambda>g. g\<lparr>isActive := True\<rparr>)
               (upd_gs (\<lambda>g. g\<lparr>waitingForPlayers := False\<rparr>) (s\<lparr>outbox := []\<rparr>)))"
  have na: "\<not> isActive (gameState (s\<lparr>outbox := []\<rparr>))" using t by (simp add: table_def)
  have gp: "getPlayer (s\<lparr>outbox := []\<rparr>) 1 = Some pa" using t by (simp add: getPlayer_def table_def)
  have n: "length (players (s\<lparr>outbox := []\<rparr>)) \<ge> MIN_PLAYERS_TO_START"
    using t by (simp add: table_def)
  have e: "step (Message 1 (mv x y) now) s = startNewRound now s3"
    unfolding s3_def using handleParsed_restart [OF na gp n, of _ now]
    by (simp add: step_def onMessage_def mv_def)
  have t3: "table [(1, pa), (2, pb), (3, pc)] True False ts s3"
    using t by (simp add: table_def s3_def)
  from respawn_stage [OF t3 a(1) b c, of now] a show ?thesis unfolding e by simp
qed

lemma alpha_again:
  assumes st: "stage [pos 100 140, pos 100 120, pos 100 120] ga 10 True True True ts s"
    and ga: "ga > 0"
  shows "stage [pos 100 140, pos 100 120, pos 100 120, pos 100 120] (ga - 1) 10 True True False
           (ts @ [(now + 5000, TGameOverReset)]) (step (Message 1 (mv 100 140) now) s)"
    and "gameOverSent (step (Message 1 (mv 100 140) now) s) = 3"
proof -
  from st obtain pa pb pc where t: "table [(1, pa), (2, pb), (3, pc)] True False ts s"
    and a: "alive pa" "segments pa = [pos 100 140, pos 100 120, pos 100 120]"
      "growth pa = ga" "kills pa = 10"
    and b: "rival True pb" and c: "rival True pc"
    by (auto simp: stage_def)
  define s4 where "s4 = upd_player 1 updateSnakeSegments
                    (upd_player 1 (\<lambda>p. if length (segments p) > 0
                                        then p\<lparr>segments := (segments p)[0 := pos 100 140]\<rparr> else p)
                       (upd_player 1 (\<lambda>p. p\<lparr>lastUpdate := now\<rparr>) (s\<lparr>outbox := []\<rparr>)))"
  define s5 where "s5 = checkFoodCollisions now 1 s4"
  define s6 where "s6 = checkCollisions now 1 s5"
  define pa1 where "pa1 = pa\<lparr>lastUpdate := now,
                            segments := [pos 100 140, pos 100 120, pos 100 120, pos 100 120],
                            growth := ga - 1\<rparr>"
  have u: "updateSnakeSegments
             (pa\<lparr>lastUpdate := now, segments := [pos 100 140, pos 100 120, pos 100 120]\<rparr>) = pa1"
    using a ga
    by (simp add: updateSnakeSegments_def applyGrowth_def Let_def followLoop_short ease_near
          dist_follow pa1_def)
  have p4: "players s4 = [(1, pa1), (2, pb), (3, pc)]"
    using t a u by (simp add: s4_def upd_player_def table_def)
  have f4: "food (gameState s4) = replicate FOOD_COUNT (pos 0 0)" and r4: "rng s4 = calm_rng"
    using t by (simp_all add: s4_def table_def)
  have g4: "getPlayer s4 1 = Some pa1" by (simp add: getPlayer_def p4)
  have e5: "s5 = s4"
    unfolding s5_def
    by (rule checkFood_far [OF f4 g4, where x = 100 and y = 140]) (simp_all add: pa1_def)
  have e6: "s6 = s4"
    using a b c
    by (simp add: s6_def e5 checkCollisions_def p4 collidePair_def getPlayer_def rival_def
          dist_eval pa1_def)
  have gp: "map_of [(1, pa), (2, pb), (3, pc)] (1::nat) = Some pa" by simp
  have f5: "food (gameState s5) = replicate FOOD_COUNT (pos 0 0)" and r5: "rng s5 = calm_rng"
    using f4 r4 by (simp_all add: e5)
  note m = movement_table [OF t gp a(1) s4_def s5_def f5 r5 s6_def]
  have t6: "table [(1, pa1), (2, pb), (3, pc)] True False ts s6"
    using m(2) by (simp add: e6 p4)
  have f: "find (\<lambda>(w, p). kills p \<ge> WINNING_KILLS) [(1, pa1), (2, pb), (3, pc)] = Some (1, pa1)"
    using a by (simp add: pa1_def)
  have al: "filter (\<lambda>(w, p). alive p) [(1, pa1), (2, pb), (3, pc)] \<noteq> []"
    using a by (simp add: pa1_def)
  note w = status_win [OF t6 f al m(3), of now]
  from w(1) show "stage [pos 100 140, pos 100 120, pos 100 120, pos 100 120] (ga - 1) 10
           True True False (ts @ [(now + 5000, TGameOverReset)])
           (step (Message 1 (mv 100 140) now) s)"
    using a b c unfolding m(1) stage_def
    by (intro exI [of _ pa1] exI [of _ pb] exI [of _ pc]) (simp add: pa1_def)
  from w(2) show "gameOverSent (step (Message 1 (mv 100 140) now) s) = 3"
    unfolding m(1) by simp
qed

lemma table_close:
  assumes t: "table ps act wt ts s" and al: "filter (\<lambda>(w', p). alive p) (mapDelete w ps) \<noteq> []"
  shows "table (mapDelete w ps) act wt (ts @ [(now + 100, TCheckGameStatus)])
           (step (Close w now) s)"
proof -
  have "mapDelete w ps \<noteq> []" using al by auto
  then show ?thesis
    using t al
    by (simp add: table_def step_def onClose_def Let_def broadcastPlayerStates_timers)
qed

lemma reset_timer:
  assumes "timers s = (d, TGameOverReset) # rest" and "d \<le> now"
  shows "step (Timeout 0 now) s = gameOverReset now (s\<lparr>outbox := [], timers := rest\<rparr>)"
  using assms by (simp add: step_def onTimeout_def runTimer_def)

lemma gameOverReset_timers [simp]: "timers (gameOverReset now s) = timers s"
  by (simp add: gameOverReset_def Let_def)

lemma gameOverReset_length [simp]: "length (players (gameOverReset now s)) = length (players s)"
  using arg_cong [OF gameOverReset_keys [of now s], of length] by (simp del: gameOverReset_keys)

subsection \<open>The game as a run of the event loop\<close>

lemma run_append: "run (xs @ ys) s = run ys (run xs s)"
  by (induction xs arbitrary: s) simp_all

lemma first_moves_stage:
  "stage [pos 100 140, pos 100 120, pos 100 120] 198 0 True True True []
     (run first_moves (initState calm_rng 0))"
proof -
  let ?a = "newPlayer ''alpha'' (pos 800 600) 10"
  let ?b = "newPlayer ''bravo'' (pos 800 600) 20"
  let ?c = "newPlayer ''carol'' (pos 800 600) 30"
  let ?s1 = "step (Open 1 ''alpha'' 10) (initState calm_rng 0)"
  let ?s2 = "step (Open 2 ''bravo'' 20) ?s1"
  let ?s3 = "step (Open 3 ''carol'' 30) ?s2"
  have t1: "table [(1, ?a)] False True [] ?s1"
    using table_open [OF table_init, of 10 1 "''alpha''"] by simp
  have t2: "table [(1, ?a), (2, ?b)] True False [] ?s2"
    using table_open [OF t1, of 20 2 "''bravo''"] by (simp add: newPlayer_def)
  have t3: "table [(1, ?a), (2, ?b), (3, ?c)] True False [] ?s3"
    using table_open [OF t2, of 30 3 "''carol''"] by (simp add: newPlayer_def)
  have "stage [pos 800 600] 0 0 True True True [] ?s3"
    unfolding stage_def using t3
    by (intro exI [of _ ?a] exI [of _ ?b] exI [of _ ?c]) (simp add: newPlayer_def rival_def)
  from alpha_grow2 [OF alpha_grow1 [OF alpha_feast [OF this, of 40], of 50], of 60]
  show ?thesis by (simp add: first_moves_def)
qed

lemma duel_round_stage:
  assumes st: "stage [pos 100 140, pos 100 120, pos 100 120] ga k True True True [] s"
    and k: "k < 8"
  shows "stage [pos 100 140, pos 100 120, pos 100 120] (ga + 10) (k + 2) True True True []
           (run (duel_round t) s)"
proof -
  have k1: "k < 9" and k2: "k + 1 < 9" using k by simp_all
  from carol_dies [OF bravo_dies [OF st k1, of t] k2, of "t + 10"]
  have c: "stage [pos 100 140, pos 100 120, pos 100 120] (ga + 10) (k + 2) False False True
             [(t + 3010, TStartNewRound)]
             (step (Message 3 (mv 100 110) (t + 10)) (step (Message 2 (mv 100 110) t) s))"
    by (simp add: add.assoc)
  from respawn_timer [OF c, of "t + 3010"]
  show ?thesis by (simp add: duel_round_def)
qed

lemma won_stage:
  "stage [pos 100 140, pos 100 120, pos 100 120] 248 10 False False False
     [(17510, TGameOverReset)] won"
  "gameOverSent won = 3"
proof -
  let ?s = "run (first_moves @ duel_round 100 @ duel_round 3200 @ duel_round 6300 @ duel_round 9400)
              (initState calm_rng 0)"
  from duel_round_stage [OF duel_round_stage [OF duel_round_stage [OF duel_round_stage
         [OF first_moves_stage, of 100], of 3200], of 6300], of 9400]
  have s8: "stage [pos 100 140, pos 100 120, pos 100 120] 238 8 True True True [] ?s"
    by (simp add: run_append)
  from bravo_dies [OF s8, of 12500]
  have s9: "stage [pos 100 140, pos 100 120, pos 100 120] 243 9 False True True []
              (step (Message 2 (mv 100 110) 12500) ?s)" by simp
  have e: "won = step (Message 3 (mv 100 110) 12510) (step (Message 2 (mv 100 110) 12500) ?s)"
    by (simp add: won_def winning_game_def run_append)
  from carol_wins [OF s9, of 12510]
  show "stage [pos 100 140, pos 100 120, pos 100 120] 248 10 False False False
     [(17510, TGameOverReset)] won" "gameOverSent won = 3"
    unfolding e by simp_all
qed

lemma reachable_won: "reachable won"
  unfolding won_def by (intro reachable_run reachable_init)

lemma respawn_pending_stage:
  "stage [pos 100 140, pos 100 120, pos 100 120] 208 2 False False True
     [(3110, TStartNewRound)] respawn_pending"
proof -
  from carol_dies [OF bravo_dies [OF first_moves_stage, of 100], of 110]
  show ?thesis by (simp add: respawn_pending_def run_append)
qed

lemma reachable_respawn_pending: "reachable respawn_pending"
  unfolding respawn_pending_def by (intro reachable_run reachable_init)

section \<open>The round counter and the flags over a whole game\<close>

lemma rn_startNewRound_eq:
  "(gameOver (gameState s) \<longrightarrow> length (players s) < MIN_PLAYERS_TO_START) \<Longrightarrow>
   roundNumber (gameState (startNewRound now s)) = roundNumber (gameState s)"
  by (auto simp: startNewRound_flags)

lemma rn_checkGameStatus_eq:
  assumes "gameOver (gameState s) \<longrightarrow> length (players s) < MIN_PLAYERS_TO_START"
  shows "roundNumber (gameState (checkGameStatus now s)) = roundNumber (gameState s)"
proof -
  have "fst (rc (checkGameStatus now s)) = fst (rc s)"
    using assms by (simp add: rc_checkGameStatus rc_startNewRound) (simp add: rc_def)
  then show ?thesis by (simp add: rc_def)
qed

lemma rn_handleMovement_eq:
  assumes "gameOver (gameState s) \<longrightarrow> length (players s) < MIN_PLAYERS_TO_START"
  shows "roundNumber (gameState (handleMovement w hp rot now s)) = roundNumber (gameState s)"
proof -
  let ?s6 = "checkCollisions now w (checkFoodCollisions now w
       (upd_player w updateSnakeSegments
         (case rot of
            Some r \<Rightarrow> upd_player w (\<lambda>p. p\<lparr>rotation := r\<rparr>)
                        (upd_player w (\<lambda>p. if length (segments p) > 0
                                            then p\<lparr>segments := (segments p)[0 := hp]\<rparr> else p)
                           (upd_player w (\<lambda>p. p\<lparr>lastUpdate := now\<rparr>) s))
          | None \<Rightarrow> upd_player w (\<lambda>p. if length (segments p) > 0
                                        then p\<lparr>segments := (segments p)[0 := hp]\<rparr> else p)
                      (upd_player w (\<lambda>p. p\<lparr>lastUpdate := now\<rparr>) s))))"
  have q: "quiet s ?s6" by (rule movement_prefix_quiet)
  have "gameOver (gameState ?s6) \<longrightarrow> length (players ?s6) < MIN_PLAYERS_TO_START"
    using assms quiet_flags(3) [OF q] quiet_fields(4) [OF q] by simp
  from rn_checkGameStatus_eq [OF this, of now] quiet_flags(4) [OF q]
  show ?thesis by (simp add: handleMovement_eq)
qed

lemma rn_onMessage_eq:
  assumes "gameOver (gameState s) \<longrightarrow> length (players s) < MIN_PLAYERS_TO_START"
  shows "roundNumber (gameState (onMessage w inb now s)) = roundNumber (gameState s)"
proof -
  have a: "roundNumber (gameState (startNewRound now s')) = roundNumber (gameState s)"
    if "roundNumber (gameState s') = roundNumber (gameState s)"
      and "gameOver (gameState s') = gameOver (gameState s)"
      and "length (players s') = length (players s)" for s'
    using rn_startNewRound_eq [of s' now] that assms by simp
  have "roundNumber (gameState (handleParsed w d now s)) = roundNumber (gameState s)" for d
    using assms
    by (auto simp: handleParsed_def Let_def a rn_handleMovement_eq split: option.splits)
  then show ?thesis by (cases inb) (simp_all add: onMessage_def)
qed


lemma rn_onTick_eq:
  assumes g: "gameOver_pending_ok s"
  shows "roundNumber (gameState (onTick now s)) = roundNumber (gameState s)"
proof -
  let ?s1 = "upd_gs (\<lambda>g. g\<lparr>serverTime := now\<rparr>) s"
  define s2 where "s2 = (if waitingForPlayers (gameState ?s1) \<and> \<not> isActive (gameState ?s1)
                   \<and> length (players ?s1) \<ge> MIN_PLAYERS_TO_START
             then startNewRound now (upd_gs (\<lambda>g. g\<lparr>waitingForPlayers := False\<rparr>) ?s1) else ?s1)"
  define s3 where "s3 = s2\<lparr>players := filter (\<lambda>(w, p). \<not> (now - lastUpdate p > INACTIVE_TIMEOUT_MS))
                                 (players s2)\<rparr>"
  have e: "onTick now s =
      (if length (filter (\<lambda>(w, p). now - lastUpdate p > INACTIVE_TIMEOUT_MS) (players s2)) > 0
       then checkGameStatus now (broadcastPlayerStates now s3) else s3)"
    unfolding onTick_def Let_def s2_def s3_def ..
  have p: "gameOver (gameState s) \<longrightarrow> length (players s) < MIN_PLAYERS_TO_START"
    using g by (auto simp: gameOver_pending_ok_def)
  have r2: "roundNumber (gameState s2) = roundNumber (gameState s)"
    using p rn_startNewRound_eq [of "upd_gs (\<lambda>g. g\<lparr>waitingForPlayers := False\<rparr>) ?s1" now]
    by (simp add: s2_def)
  have g2: "gameOver (gameState s2) \<longrightarrow> length (players s2) < MIN_PLAYERS_TO_START"
    using p by (simp add: startNewRound_flags s2_def)
  have r3: "roundNumber (gameState s3) = roundNumber (gameState s2)" by (simp add: s3_def)
  have l3: "length (players s3) \<le> length (players s2)" by (simp add: s3_def)
  have go3: "gameOver (gameState s3) = gameOver (gameState s2)" by (simp add: s3_def)
  have g3: "gameOver (gameState (broadcastPlayerStates now s3))
            \<longrightarrow> length (players (broadcastPlayerStates now s3)) < MIN_PLAYERS_TO_START"
    using g2 l3 go3 by auto
  have r4: "roundNumber (gameState (checkGameStatus now (broadcastPlayerStates now s3)))
            = roundNumber (gameState s3)"
    using rn_checkGameStatus_eq [OF g3, of now] by simp
  show ?thesis unfolding e using r2 r3 r4 by (simp split: if_splits)
qed

lemma rn_onTimeout_eq:
  assumes g: "gameOver_pending_ok s"
    and k: "k < length (timers s) \<longrightarrow> snd (timers s ! k) \<noteq> TGameOverReset"
  shows "roundNumber (gameState (onTimeout k now s)) = roundNumber (gameState s)"
proof -
  let ?s' = "s\<lparr>timers := take k (timers s) @ drop (Suc k) (timers s)\<rparr>"
  have p: "gameOver (gameState ?s') \<longrightarrow> length (players ?s') < MIN_PLAYERS_TO_START"
    using g by (auto simp: gameOver_pending_ok_def)
  have "roundNumber (gameState (runTimer t now ?s')) = roundNumber (gameState s)"
    if "t \<noteq> TGameOverReset" for t
    using that rn_checkGameStatus_eq [OF p, of now] rn_startNewRound_eq [OF p, of now]
    by (cases t) (simp_all add: runTimer_def)
  then show ?thesis using k by (simp add: onTimeout_def)
qed


lemma won_table:
  "\<exists>pa pb pc. table [(1, pa), (2, pb), (3, pc)] False False [(17510, TGameOverReset)] won
      \<and> kills pa = 10 \<and> kills pb = 0 \<and> kills pc = 0 \<and> alive pa"
  using won_stage(1) by (auto simp: stage_def rival_def)


lemma departure_table:
  "\<exists>pa. table [(1, pa)] False False
           [(17510, TGameOverReset), (17550, TCheckGameStatus), (17560, TCheckGameStatus)]
           (step (Close 3 17460) (step (Close 2 17450) won))"
proof -
  from won_table obtain pa pb pc where
    t: "table [(1, pa), (2, pb), (3, pc)] False False [(17510, TGameOverReset)] won"
    and a: "alive pa" by blast
  from table_close [OF t, of 2 17450] a
  have t1: "table [(1, pa), (3, pc)] False False
              [(17510, TGameOverReset), (17550, TCheckGameStatus)] (step (Close 2 17450) won)"
    by (simp add: mapDelete_def)
  from table_close [OF t1, of 3 17460] a
  have "table [(1, pa)] False False
          [(17510, TGameOverReset), (17550, TCheckGameStatus), (17560, TCheckGameStatus)]
          (step (Close 3 17460) (step (Close 2 17450) won))"
    by (simp add: mapDelete_def)
  then show ?thesis ..
qed


text \<open>
  C2. The two flags do become true together. In the game \<open>winning_game\<close> connection 1
  reaches ten kills at time 12510 with three sessions connected; when the 5 second timer
  of that game-over fires, its callback sets \<open>waitingForPlayers\<close> and calls
  \<open>startNewRound\<close>, which sets \<open>isActive\<close> and does not clear \<open>waitingForPlayers\<close>.
\<close>

theorem C2_active_and_waiting_after_game_over:
  "reachable (step (Timeout 0 17510) won)
   \<and> length (players (step (Timeout 0 17510) won)) = 3
   \<and> isActive (gameState (step (Timeout 0 17510) won))
   \<and> waitingForPlayers (gameState (step (Timeout 0 17510) won))"
proof -
  from won_table have ti: "timers won = [(17510, TGameOverReset)]"
    and l: "length (players won) = 3"
    by (auto simp: table_def)
  have e: "step (Timeout 0 17510) won = gameOverReset 17510 (won\<lparr>outbox := [], timers := []\<rparr>)"
    using reset_timer [OF ti, of 17510] by simp
  have "reachable (step (Timeout 0 17510) won)" using reachable_won by (rule reachable_step)
  then show ?thesis unfolding e using l by (simp add: gameOverReset_flags)
qed

text \<open>
  C4. One win can be broadcast twice. In the state \<open>won\<close> connection 1 has ten kills and
  \<open>gameOver\<close> has just been sent to the three sessions. During the 5 second delay its
  client sends its position again: the first message finds the game inactive and starts
  the round again, the second is processed as a movement, finds the ten kills still there
  and sends \<open>gameOver\<close> to the three sessions once more, with a second reset timer. No kill
  happens in between.
\<close>

theorem C4_game_over_broadcast_twice:
  "gameOverSent won = 3
   \<and> map (\<lambda>(w, p). kills p) (players won) = [10, 0, 0]
   \<and> gameOverSent (run replay won) = 3
   \<and> map (\<lambda>(w, p). kills p) (players (run replay won)) = [10, 0, 0]
   \<and> timers (run replay won) = [(17510, TGameOverReset), (17700, TGameOverReset)]"
proof -
  from won_table have k0: "map (\<lambda>(w, p). kills p) (players won) = [10, 0, 0]"
    by (auto simp: table_def)
  from restart_by_message [OF won_stage(1), of 100 140 12600]
  have s1: "stage [pos 100 140, pos 100 120, pos 100 120] 248 10 True True True
              [(17510, TGameOverReset)] (step (Message 1 (mv 100 140) 12600) won)" .
  note w = alpha_again [OF s1, of 12700]
  have e: "run replay won
           = step (Message 1 (mv 100 140) 12700) (step (Message 1 (mv 100 140) 12600) won)"
    by (simp add: replay_def)
  from w(1) have k1: "map (\<lambda>(w, p). kills p) (players (run replay won)) = [10, 0, 0]"
    and t1: "timers (run replay won) = [(17510, TGameOverReset), (17700, TGameOverReset)]"
    unfolding e by (auto simp: stage_def table_def rival_def)
  from w(2) have "gameOverSent (run replay won) = 3" unfolding e by simp
  with k0 k1 t1 won_stage(2) show ?thesis by simp
qed

section \<open>A whole pass over the food\<close>

lemma eatFood_rngIdx: "rngIdx (eatFood now w i s) = rngIdx s + 2"
proof -
  have a: "rngIdx (foodMilestones now p t) = rngIdx t" for p t
    by (simp add: foodMilestones_def Let_def)
  have b: "rngIdx (notifyFoodEaten p t) = rngIdx t" for p t
    by (simp add: notifyFoodEaten_def split: option.splits)
  show ?thesis
    by (simp add: eatFood_def Let_def mathRandom_def a b split: option.splits)
qed

lemma foodLoop_pass:
  assumes "distinct (map (\<lambda>(w', q). pid q) (players s))" and "getPlayer s w = Some p"
    and "food (gameState s) = A @ B" and "length A = n"
  shows "food (gameState (foodLoop now w h n s))
           = filter (\<lambda>f. \<not> nearFood h f) A @ B
             @ map (freshFood s) [0..<length (filter (nearFood h) A)]
       \<and> getPlayer (foodLoop now w h n s) w
           = Some (p\<lparr>score := score p + int (length (filter (nearFood h) A)),
                    growth := growth p + 2 * int (length (filter (nearFood h) A))\<rparr>)
       \<and> (\<forall>w'. w' \<noteq> w \<longrightarrow> getPlayer (foodLoop now w h n s) w' = getPlayer s w')
       \<and> filter (\<lambda>(w', m). isFoodEaten m) (outbox (foodLoop now w h n s))
           = filter (\<lambda>(w', m). isFoodEaten m) (outbox s)
             @ map (eatenMsg w p) [0..<length (filter (nearFood h) A)]"
  using assms
proof (induction n arbitrary: s p A B)
  case 0
  then show ?case by simp
next
  case (Suc n)
  from Suc.prems(4) have "A \<noteq> []" by auto
  then obtain A' a where A: "A = A' @ [a]" by (metis append_butlast_last_id)
  with Suc.prems(4) have lA: "length A' = n" by simp
  have nth: "food (gameState s) ! n = a" using Suc.prems(3) A lA by (simp add: nth_append)
  show ?case
  proof (cases "nearFood h a")
    case True
    define s1 where "s1 = eatFood now w n s"
    define p1 where "p1 = p\<lparr>score := score p + 1, growth := growth p + 2\<rparr>"
    have st: "foodStep now w h n s = s1"
      using True nth by (simp add: foodStep_def nearFood_def s1_def)
    have gq: "getPlayer s1 w' =
           getPlayer (upd_player w (\<lambda>p. p\<lparr>score := score p + FOOD_SCORE_VALUE,
                                          growth := growth p + FOOD_SEGMENTS_GROWTH\<rparr>) s) w'" for w'
      unfolding s1_def by (simp add: getPlayer_cong [OF eatFood_players])
    have g1: "getPlayer s1 w = Some p1"
      using Suc.prems(2) by (simp add: gq getPlayer_upd_player p1_def)
    have o1: "w' \<noteq> w \<Longrightarrow> getPlayer s1 w' = getPlayer s w'" for w'
      by (simp add: gq getPlayer_upd_player)
    have "map (\<lambda>(w', q). pid q) (players s1)
          = map (\<lambda>(w', q). pid q)
              (players (upd_player w (\<lambda>p. p\<lparr>score := score p + FOOD_SCORE_VALUE,
                                             growth := growth p + FOOD_SEGMENTS_GROWTH\<rparr>) s))"
      unfolding s1_def by (simp only: eatFood_players)
    also have "\<dots> = map (\<lambda>(w', q). pid q) (players s)" by (rule pids_upd_player) simp
    finally have i1: "distinct (map (\<lambda>(w', q). pid q) (players s1))" using Suc.prems(1) by simp
    have f1: "food (gameState s1) = A' @ (B @ [freshFood s 0])"
      unfolding s1_def using Suc.prems(3) A lA by (simp add: eatFood_food freshFood_def)
    have fr: "freshFood s1 j = freshFood s (Suc j)" for j
      by (simp add: freshFood_def s1_def eatFood_rng eatFood_rngIdx)
    have m1: "filter (\<lambda>(w', m). isFoodEaten m) (outbox s1)
              = filter (\<lambda>(w', m). isFoodEaten m) (outbox s) @ [eatenMsg w p 0]"
      unfolding s1_def by (simp add: eatFood_notifies [OF Suc.prems(2,1)] eatenMsg_def)
    have em: "eatenMsg w p1 j = eatenMsg w p (Suc j)" for j
      by (simp add: eatenMsg_def p1_def)
    let ?k = "length (filter (nearFood h) A')"
    have k: "length (filter (nearFood h) A) = Suc ?k" using True A by simp
    have nA: "filter (\<lambda>f. \<not> nearFood h f) A = filter (\<lambda>f. \<not> nearFood h f) A'"
      using True A by simp
    have pe: "p1\<lparr>score := score p1 + int ?k, growth := growth p1 + 2 * int ?k\<rparr>
              = p\<lparr>score := score p + int (Suc ?k), growth := growth p + 2 * int (Suc ?k)\<rparr>"
      by (simp add: p1_def)
    from Suc.IH [OF i1 g1 f1 lA]
    have ih1: "food (gameState (foodLoop now w h n s1))
                 = filter (\<lambda>f. \<not> nearFood h f) A' @ (B @ [freshFood s 0])
                   @ map (freshFood s1) [0..<?k]"
      and ih2: "getPlayer (foodLoop now w h n s1) w
                 = Some (p1\<lparr>score := score p1 + int ?k, growth := growth p1 + 2 * int ?k\<rparr>)"
      and ih3: "\<forall>w'. w' \<noteq> w \<longrightarrow> getPlayer (foodLoop now w h n s1) w' = getPlayer s1 w'"
      and ih4: "filter (\<lambda>(w', m). isFoodEaten m) (outbox (foodLoop now w h n s1))
                 = filter (\<lambda>(w', m). isFoodEaten m) (outbox s1) @ map (eatenMsg w p1) [0..<?k]"
      by blast+
    have e: "foodLoop now w h (Suc n) s = foodLoop now w h n s1" by (simp add: st)
    have c1: "food (gameState (foodLoop now w h (Suc n) s))
           = filter (\<lambda>f. \<not> nearFood h f) A @ B @ map (freshFood s) [0..<length (filter (nearFood h) A)]"
      unfolding e ih1 k nA map_upt_Suc by (simp add: fr)
    have c2: "getPlayer (foodLoop now w h (Suc n) s) w
           = Some (p\<lparr>score := score p + int (length (filter (nearFood h) A)),
                    growth := growth p + 2 * int (length (filter (nearFood h) A))\<rparr>)"
      unfolding e ih2 k pe ..
    have c3: "\<forall>w'. w' \<noteq> w \<longrightarrow> getPlayer (foodLoop now w h (Suc n) s) w' = getPlayer s w'"
      unfolding e using ih3 o1 by simp
    have c4: "filter (\<lambda>(w', m). isFoodEaten m) (outbox (foodLoop now w h (Suc n) s))
           = filter (\<lambda>(w', m). isFoodEaten m) (outbox s)
             @ map (eatenMsg w p) [0..<length (filter (nearFood h) A)]"
      unfolding e ih4 k m1 map_upt_Suc by (simp add: em)
    from c1 c2 c3 c4 show ?thesis by blast
  next
    case False
    have st: "foodStep now w h n s = s"
      using False nth by (simp add: foodStep_def nearFood_def)
    have f1: "food (gameState s) = A' @ (a # B)" using Suc.prems(3) A by simp
    have k: "filter (nearFood h) A = filter (nearFood h) A'" using False A by simp
    have nA: "filter (\<lambda>f. \<not> nearFood h f) A = filter (\<lambda>f. \<not> nearFood h f) A' @ [a]"
      using False A by simp
    from Suc.IH [OF Suc.prems(1,2) f1 lA] show ?thesis
      by (simp add: st k nA)
  qed
qed


text \<open>
  C5. A pass of \<open>checkFoodCollisions\<close> for a connection whose session has the head \<open>h\<close>.
  If the session is alive, every food item within \<open>SEGMENT_RADIUS + FOOD_RADIUS\<close> of the
  head is one consumption event: the items within reach are removed and the others stay
  in their order, one replacement per eaten item, drawn from the random source, is pushed
  at the end, so the count is as before; the eater's score is 1 and its pending growth 2
  higher per eaten item and no other session changes; and one \<open>foodEaten\<close> message per
  eaten item is sent, each to the eater, with the score and length after that item. If the
  session is not alive, nothing is eaten: the state is as before. Session ids are taken to
  be distinct, as UUIDs are.
\<close>

theorem C5_food_consumption:
  assumes gp: "getPlayer s w = Some p" and sg: "segments p = h # rest"
    and ids: "distinct (map (\<lambda>(w', q). pid q) (players s))"
  shows "(alive p \<longrightarrow>
            food (gameState (checkFoodCollisions now w s))
              = filter (\<lambda>f. \<not> nearFood h f) (food (gameState s))
                @ map (freshFood s) [0..<length (filter (nearFood h) (food (gameState s)))]
          \<and> length (food (gameState (checkFoodCollisions now w s))) = length (food (gameState s))
          \<and> getPlayer (checkFoodCollisions now w s) w
              = Some (p\<lparr>score := score p + int (length (filter (nearFood h) (food (gameState s)))),
                       growth := growth p
                         + 2 * int (length (filter (nearFood h) (food (gameState s))))\<rparr>)
          \<and> (\<forall>w'. w' \<noteq> w \<longrightarrow> getPlayer (checkFoodCollisions now w s) w' = getPlayer s w')
          \<and> filter (\<lambda>(w', m). isFoodEaten m) (outbox (checkFoodCollisions now w s))
              = filter (\<lambda>(w', m). isFoodEaten m) (outbox s)
                @ map (eatenMsg w p) [0..<length (filter (nearFood h) (food (gameState s)))])
       \<and> (\<not> alive p \<longrightarrow> checkFoodCollisions now w s = s)"
proof (intro conjI impI)
  assume "\<not> alive p"
  then show "checkFoodCollisions now w s = s"
    using gp sg by (simp add: checkFoodCollisions_def)
next
  assume al: "alive p"
  let ?F = "food (gameState s)"
  have e: "checkFoodCollisions now w s = foodLoop now w h (length ?F) s"
    using gp sg al by (simp add: checkFoodCollisions_def)
  have F: "?F = ?F @ []" by simp
  note r = foodLoop_pass [OF ids gp F refl, of now h]
  from r show "food (gameState (checkFoodCollisions now w s))
              = filter (\<lambda>f. \<not> nearFood h f) ?F
                @ map (freshFood s) [0..<length (filter (nearFood h) ?F)]"
    unfolding e by simp
  then show "length (food (gameState (checkFoodCollisions now w s))) = length ?F"
    using sum_length_filter_compl [of "nearFood h" ?F] by simp
  from r show "getPlayer (checkFoodCollisions now w s) w
              = Some (p\<lparr>score := score p + int (length (filter (nearFood h) ?F)),
                       growth := growth p + 2 * int (length (filter (nearFood h) ?F))\<rparr>)"
    unfolding e by blast
  from r show "\<forall>w'. w' \<noteq> w \<longrightarrow> getPlayer (checkFoodCollisions now w s) w' = getPlayer s w'"
    unfolding e by blast
  from r show "filter (\<lambda>(w', m). isFoodEaten m) (outbox (checkFoodCollisions now w s))
              = filter (\<lambda>(w', m). isFoodEaten m) (outbox s)
                @ map (eatenMsg w p) [0..<length (filter (nearFood h) ?F)]"
    unfolding e by blast
qed

theorem C5_food_consumption_witness:
  "getPlayer grazing 1 = Some (snake ''eater'' [pos 100 100])
   \<and> alive (snake ''eater'' [pos 100 100])
   \<and> distinct (map (\<lambda>(w', q). pid q) (players grazing))
   \<and> filter (nearFood (pos 100 100)) (food (gameState grazing)) = [pos 100 110]
   \<and> food (gameState (checkFoodCollisions 0 1 grazing)) = [pos 0 0, pos 500 500, pos 0 0]
   \<and> map_option score (getPlayer (checkFoodCollisions 0 1 grazing) 1) = Some 1
   \<and> map_option growth (getPlayer (checkFoodCollisions 0 1 grazing) 1) = Some 2
   \<and> filter (\<lambda>(w', m). isFoodEaten m) (outbox (checkFoodCollisions 0 1 grazing))
       = [(1, FoodEaten 1 3 ''grow'')]
   \<and> getPlayer dead_bystander 2 = Some ghost
   \<and> \<not> alive ghost
   \<and> distinct (map (\<lambda>(w', q). pid q) (players dead_bystander))
   \<and> nearFood (pos 0 5) (hd (food (gameState dead_bystander)))
   \<and> checkFoodCollisions 0 2 dead_bystander = dead_bystander"
proof -
  have gp: "getPlayer grazing 1 = Some (snake ''eater'' [pos 100 100])"
    by (simp add: grazing_def arena_def getPlayer_def)
  have al: "alive (snake ''eater'' [pos 100 100])" by (simp add: snake_def)
  have sg: "segments (snake ''eater'' [pos 100 100]) = pos 100 100 # []" by (simp add: snake_def)
  have ids: "distinct (map (\<lambda>(w', q). pid q) (players grazing))"
    by (simp add: grazing_def arena_def)
  have f: "food (gameState grazing) = [pos 0 0, pos 100 110, pos 500 500]"
    by (simp add: grazing_def arena_def)
  have n: "filter (nearFood (pos 100 100)) (food (gameState grazing)) = [pos 100 110]"
    by (simp add: f nearFood_def dist_food)
  have nn: "filter (\<lambda>f. \<not> nearFood (pos 100 100) f) (food (gameState grazing))
            = [pos 0 0, pos 500 500]"
    by (simp add: f nearFood_def dist_food)
  have r: "freshFood grazing 0 = pos 0 0" "outbox grazing = []"
    by (simp_all add: grazing_def arena_def freshFood_def pos_def)
  from C5_food_consumption [OF gp sg ids, of 0, THEN conjunct1, THEN mp, OF al]
  have a: "food (gameState (checkFoodCollisions 0 1 grazing)) = [pos 0 0, pos 500 500, pos 0 0]
   \<and> map_option score (getPlayer (checkFoodCollisions 0 1 grazing) 1) = Some 1
   \<and> map_option growth (getPlayer (checkFoodCollisions 0 1 grazing) 1) = Some 2
   \<and> filter (\<lambda>(w', m). isFoodEaten m) (outbox (checkFoodCollisions 0 1 grazing))
       = [(1, FoodEaten 1 3 ''grow'')]"
    by (simp add: n nn r snake_def eatenMsg_def)
  have gp': "getPlayer dead_bystander 2 = Some ghost"
    by (simp add: dead_bystander_def arena_def getPlayer_def)
  have sg': "segments ghost = pos 0 5 # [pos 0 8]" by (simp add: ghost_def snake_def)
  have dead: "\<not> alive ghost" by (simp add: ghost_def)
  have ids': "distinct (map (\<lambda>(w', q). pid q) (players dead_bystander))"
    by (simp add: dead_bystander_def arena_def ghost_def snake_def)
  have nf: "nearFood (pos 0 5) (hd (food (gameState dead_bystander)))"
    by (simp add: dead_bystander_def arena_def calm_game_def nearFood_def dist_food)
  from C5_food_consumption [OF gp' sg' ids', of 0, THEN conjunct2, THEN mp, OF dead]
  have b: "checkFoodCollisions 0 2 dead_bystander = dead_bystander" .
  from gp al ids n a gp' dead ids' nf b show ?thesis by blast
qed

end
